theory Spec2Isabelle
  imports Main "HOL-Library.Sublist" "HOL-Library.Word"
begin

unbundle bit_operations_syntax

section \<open>C strings and machine integers\<close>

text \<open>
  A C string is modelled by the list of its bytes before the terminating NUL; a nullable
  \<^verbatim>\<open>char *\<close> is a \<open>string option\<close> with \<open>None\<close> for \<^verbatim>\<open>NULL\<close>.
  Reading byte \<open>k\<close> of a string of length \<open>n\<close> is inside its buffer for \<open>0 \<le> k \<le> n\<close>
  (index \<open>n\<close> holds the terminator) and outside of it for every other index.
\<close>

datatype error = OutOfBounds

definition byte_at :: "string \<Rightarrow> int \<Rightarrow> char option" where
  "byte_at s k =
     (if 0 \<le> k \<and> k < int (length s) then Some (s ! nat k)
      else if k = int (length s) then Some (CHR 0x00)
      else None)"

text \<open>
  \<^verbatim>\<open>strlen\<close> returns a \<^verbatim>\<open>size_t\<close> (64 bits, arithmetic modulo \<open>2 ^ 64\<close>); the
  source stores lengths in \<^verbatim>\<open>int\<close> variables (32 bits, two's complement), so the
  conversion truncates.
\<close>

definition strlen :: "string \<Rightarrow> int" where
  "strlen s = take_bit 64 (int (length s))"

definition size_t_arith :: "int \<Rightarrow> int" where
  "size_t_arith k = take_bit 64 k"

definition int_of_size_t :: "int \<Rightarrow> int" where
  "int_of_size_t k = signed_take_bit 31 k"

text \<open>\<^verbatim>\<open>toupper\<close> of \<^verbatim>\<open>ctype.h\<close> in the C locale: only \<^verbatim>\<open>a\<close> .. \<^verbatim>\<open>z\<close> change.\<close>

definition toupper :: "char \<Rightarrow> char" where
  "toupper c =
     (let n = (of_char c :: nat) in if 97 \<le> n \<and> n \<le> 122 then char_of (n - 32) else c)"

section \<open>util_strcasestr\<close>

text \<open>
  The inner loop \<^verbatim>\<open>for (j = 0; j < nlen; j++)\<close>: \<open>Inr False\<close> is the \<^verbatim>\<open>goto next\<close>,
  \<open>Inr True\<close> is falling out of the loop (every byte of the window matched), and
  \<open>Inl OutOfBounds\<close> is a read outside the haystack or needle buffer.
\<close>

function strcasestr_inner :: "string \<Rightarrow> string \<Rightarrow> int \<Rightarrow> int \<Rightarrow> int \<Rightarrow> error + bool" where
  "strcasestr_inner haystack needle nlen i j =
     (if j < nlen then
        (case byte_at haystack (i + j) of
           None \<Rightarrow> Inl OutOfBounds
         | Some c1 \<Rightarrow>
             (case byte_at needle j of
                None \<Rightarrow> Inl OutOfBounds
              | Some c2 \<Rightarrow>
                  if toupper c1 \<noteq> toupper c2 then Inr False
                  else strcasestr_inner haystack needle nlen i (j + 1)))
      else Inr True)"
  by pat_completeness auto
termination
  by (relation "measure (\<lambda>(haystack, needle, nlen, i, j). nat (nlen - j))") auto

text \<open>
  The outer loop \<^verbatim>\<open>for (i = 0; i < hlen; i++)\<close>. The returned pointer
  \<^verbatim>\<open>haystack + i\<close> is the offset \<open>i\<close>; \<open>None\<close> is \<^verbatim>\<open>NULL\<close>.
\<close>

function strcasestr_outer :: "string \<Rightarrow> string \<Rightarrow> int \<Rightarrow> int \<Rightarrow> int \<Rightarrow> error + nat option" where
  "strcasestr_outer haystack needle nlen hlen i =
     (if i < hlen then
        (case strcasestr_inner haystack needle nlen i 0 of
           Inl e \<Rightarrow> Inl e
         | Inr True \<Rightarrow> Inr (Some (nat i))
         | Inr False \<Rightarrow> strcasestr_outer haystack needle nlen hlen (i + 1))
      else Inr None)"
  by pat_completeness auto
termination
  by (relation "measure (\<lambda>(haystack, needle, nlen, hlen, i). nat (hlen - i))") auto

definition util_strcasestr :: "string \<Rightarrow> string \<Rightarrow> error + nat option" where
  "util_strcasestr haystack needle =
     (let nlen = int_of_size_t (strlen needle);
          hlen = int_of_size_t (size_t_arith (strlen haystack - size_t_arith nlen + 1))
      in strcasestr_outer haystack needle nlen hlen 0)"

text \<open>
  ASCII upper-case folding as the specification means it, by table: each of the letters
  \<^verbatim>\<open>a\<close> .. \<^verbatim>\<open>z\<close> goes to the capital beside it, every other byte stays.
\<close>

definition ascii_upper :: "char \<Rightarrow> char" where
  "ascii_upper c =
     (case map_of (zip ''abcdefghijklmnopqrstuvwxyz'' ''ABCDEFGHIJKLMNOPQRSTUVWXYZ'') c of
        Some u \<Rightarrow> u
      | None \<Rightarrow> c)"

text \<open>
  The needle matches the haystack at offset \<open>i\<close>: the window of the needle's length
  starting at \<open>i\<close> lies inside the haystack and equals the needle after folding each
  byte.
\<close>

definition matches_at :: "string \<Rightarrow> string \<Rightarrow> nat \<Rightarrow> bool" where
  "matches_at haystack needle i =
     (i + length needle \<le> length haystack \<and>
      map ascii_upper (take (length needle) (drop i haystack)) = map ascii_upper needle)"


section \<open>The GLib string primitives the module calls\<close>

text \<open>
  GLib is an external library; the functions below follow its documented behaviour.
  \<^verbatim>\<open>g_ascii_isspace\<close> holds for the bytes that GLib's table of ASCII characters
  marks as white space: horizontal tab (9), newline (10), form feed (12), carriage return
  (13) and space (32); the vertical tab (11) is not among them.
  \<^verbatim>\<open>g_strstrip\<close> is \<^verbatim>\<open>g_strchomp (g_strchug (s))\<close>: it removes leading, then
  trailing white space.
\<close>

definition g_ascii_isspace :: "char \<Rightarrow> bool" where
  "g_ascii_isspace c =
     (let n = (of_char c :: nat) in n = 9 \<or> n = 10 \<or> n = 12 \<or> n = 13 \<or> n = 32)"

definition g_strchug :: "string \<Rightarrow> string" where
  "g_strchug s = dropWhile g_ascii_isspace s"

definition g_strchomp :: "string \<Rightarrow> string" where
  "g_strchomp s = rev (dropWhile g_ascii_isspace (rev s))"

definition g_strstrip :: "string \<Rightarrow> string" where
  "g_strstrip s = g_strchomp (g_strchug s)"

text \<open>\<^verbatim>\<open>strstr\<close>: the offset of the first occurrence of the needle, \<open>None\<close> for \<^verbatim>\<open>NULL\<close>.\<close>

fun strstr :: "string \<Rightarrow> string \<Rightarrow> nat option" where
  "strstr [] needle = (if needle = [] then Some 0 else None)"
| "strstr (c # cs) needle =
     (if take (length needle) (c # cs) = needle then Some 0
      else map_option Suc (strstr cs needle))"

lemma strstr_Some_le: "strstr s d = Some k \<Longrightarrow> k + length d \<le> length s"
proof (induction s arbitrary: k)
  case Nil
  then show ?case by (simp split: if_splits)
next
  case (Cons c cs)
  show ?case
  proof (cases "take (length d) (c # cs) = d")
    case True
    then have "length (take (length d) (c # cs)) = length d"
      by simp
    then have "length d \<le> length (c # cs)"
      by (simp only: length_take)
    with True Cons.prems show ?thesis by simp
  next
    case False
    with Cons.prems obtain k' where "strstr cs d = Some k'" "k = Suc k'" by auto
    with Cons.IH show ?thesis by simp
  qed
qed

text \<open>
  The loop of \<^verbatim>\<open>g_strsplit\<close>: every piece before an occurrence of the delimiter is a
  token, and so is the remainder after the last occurrence. \<open>max_tokens = -1\<close> means that
  the string is split completely.
\<close>

function split_tokens :: "string \<Rightarrow> string \<Rightarrow> string list" where
  "split_tokens remainder delimiter =
     (if delimiter = [] then [remainder]
      else case strstr remainder delimiter of
             None \<Rightarrow> [remainder]
           | Some k \<Rightarrow>
               take k remainder # split_tokens (drop (k + length delimiter) remainder) delimiter)"
  by pat_completeness auto
termination
proof (relation "measure (\<lambda>(remainder, delimiter). length remainder)")
  show "wf (measure (\<lambda>(remainder, delimiter). length remainder))" by simp
next
  fix remainder delimiter :: string and k
  assume "delimiter \<noteq> []" and "strstr remainder delimiter = Some k"
  then have "0 < length delimiter" and "k + length delimiter \<le> length remainder"
    using strstr_Some_le by auto
  then have "length (drop (k + length delimiter) remainder) < length remainder"
    by (simp only: length_drop)
  then show "((drop (k + length delimiter) remainder, delimiter), (remainder, delimiter))
      \<in> measure (\<lambda>(remainder, delimiter). length remainder)"
    by simp
qed

text \<open>
  \<^verbatim>\<open>g_strsplit (string, delimiter, -1)\<close>: \<^verbatim>\<open>NULL\<close> for a \<^verbatim>\<open>NULL\<close> string or a
  \<^verbatim>\<open>NULL\<close> or empty delimiter; the empty vector for the empty string.
\<close>

definition g_strsplit :: "string option \<Rightarrow> string option \<Rightarrow> string list option" where
  "g_strsplit string delimiter =
     (case string of
        None \<Rightarrow> None
      | Some s \<Rightarrow>
          (case delimiter of
             None \<Rightarrow> None
           | Some d \<Rightarrow>
               if d = [] then None
               else if s = [] then Some []
               else Some (split_tokens s d)))"

fun join_with :: "string \<Rightarrow> string list \<Rightarrow> string" where
  "join_with separator [] = []"
| "join_with separator [x] = x"
| "join_with separator (x # y # ys) = x @ separator @ join_with separator (y # ys)"

text \<open>
  \<^verbatim>\<open>g_strjoinv (separator, str_array)\<close>: \<^verbatim>\<open>NULL\<close> for a \<^verbatim>\<open>NULL\<close> array; a
  \<^verbatim>\<open>NULL\<close> separator is the empty string.
\<close>

definition g_strjoinv :: "string option \<Rightarrow> string list option \<Rightarrow> string option" where
  "g_strjoinv separator str_array =
     (case str_array of
        None \<Rightarrow> None
      | Some strs \<Rightarrow> Some (join_with (case separator of None \<Rightarrow> [] | Some sep \<Rightarrow> sep) strs))"

text \<open>
  \<^verbatim>\<open>g_strv_length\<close> returns a \<^verbatim>\<open>guint\<close> (32 bits, unsigned), and 0 for a
  \<^verbatim>\<open>NULL\<close> array.
\<close>

definition g_strv_length :: "string list option \<Rightarrow> int" where
  "g_strv_length str_array =
     (case str_array of None \<Rightarrow> 0 | Some strs \<Rightarrow> take_bit 32 (int (length strs)))"

section \<open>util_str_replace\<close>

definition util_str_replace :: "string option \<Rightarrow> string option \<Rightarrow> string option \<Rightarrow> string option" where
  "util_str_replace search replace string =
     (case string of
        None \<Rightarrow> None
      | Some s \<Rightarrow> g_strjoinv replace (g_strsplit (Some s) search))"


section \<open>The operating system as the module sees it\<close>

text \<open>
  The state of the file system, the standard error stream and the environment. A node is
  a directory with its permission bits or a regular file; \<open>Unreadable\<close> carries the
  message of the error that reading the file reports. A node is stored under its
  absolute path without empty, \<^verbatim>\<open>.\<close> and \<^verbatim>\<open>..\<close> components (\<^verbatim>\<open>/\<close> for the root).
  The fields \<open>mkdir_permitted\<close>, \<open>open_tmp\<close> and \<open>write_limit\<close> are the operating
  system's answers the program cannot foresee: whether \<^verbatim>\<open>mkdir\<close> of a missing
  directory is allowed, the name of the temporary file that \<^verbatim>\<open>g_file_open_tmp\<close>
  creates (\<open>None\<close> when it fails) and how many bytes \<^verbatim>\<open>write\<close> accepts (\<open>-1\<close> for
  an error). \<open>umask\<close> is the file mode creation mask of the process. Symbolic links are
  not part of the model.
\<close>

type_synonym mode_t = "32 word"

datatype file_data = Readable string | Unreadable string

datatype node = Directory mode_t | Regular file_data

record os =
  nodes :: "string \<Rightarrow> node option"
  stderr :: string
  env_HOME :: "string option"
  home_dir :: string
  current_dir :: string
  umask :: mode_t
  mkdir_permitted :: "string \<Rightarrow> bool"
  open_tmp :: "string option"
  write_limit :: int

definition fprintf_stderr :: "os \<Rightarrow> string \<Rightarrow> os" where
  "fprintf_stderr st msg = st\<lparr>stderr := stderr st @ msg\<rparr>"

text \<open>
  \<^verbatim>\<open>g_getenv("HOME")\<close> reads the environment. \<^verbatim>\<open>g_get_home_dir\<close> gives the
  platform's notion of the home directory, a value of its own: the GLib the source was
  written for takes it from the user database and documents that it pays no attention to
  \<^verbatim>\<open>HOME\<close>, which is why the source has util_get_home_dir.
\<close>

definition g_getenv_HOME :: "os \<Rightarrow> string option" where
  "g_getenv_HOME st = env_HOME st"

definition g_get_home_dir :: "os \<Rightarrow> string" where
  "g_get_home_dir st = home_dir st"

definition g_get_current_dir :: "os \<Rightarrow> string" where
  "g_get_current_dir st = current_dir st"

text \<open>
  Path resolution, as the kernel does it. The path is cut at every \<^verbatim>\<open>/\<close>; the walk
  starts at the root for a path that begins with \<^verbatim>\<open>/\<close> and at the current directory
  otherwise. Every component is looked up in the place reached so far, which has to be a
  directory: an empty component or \<^verbatim>\<open>.\<close> stays there, \<^verbatim>\<open>..\<close> goes to the parent
  (the root is its own parent), a name goes to the entry of that name, whether or not it
  exists. The empty path resolves to nothing.
\<close>

fun path_components :: "string \<Rightarrow> string \<Rightarrow> string list" where
  "path_components cur [] = [cur]"
| "path_components cur (c # cs) =
     (if c = CHR ''/'' then cur # path_components [] cs else path_components (cur @ [c]) cs)"

definition key_of :: "string list \<Rightarrow> string" where
  "key_of comps = (if comps = [] then ''/'' else concat (map (\<lambda>c. CHR ''/'' # c) comps))"

definition is_dir_key :: "os \<Rightarrow> string list \<Rightarrow> bool" where
  "is_dir_key st comps =
     (case nodes st (key_of comps) of Some (Directory _) \<Rightarrow> True | _ \<Rightarrow> False)"

fun walk_path :: "os \<Rightarrow> string list \<Rightarrow> string list \<Rightarrow> string list option" where
  "walk_path st cur [] = Some cur"
| "walk_path st cur (c # cs) =
     (if \<not> is_dir_key st cur then None
      else if c = [] \<or> c = ''.'' then walk_path st cur cs
      else if c = ''..'' then walk_path st (butlast cur) cs
      else walk_path st (cur @ [c]) cs)"

definition cwd_components :: "os \<Rightarrow> string list" where
  "cwd_components st = filter (\<lambda>c. c \<noteq> []) (path_components [] (current_dir st))"

definition resolve :: "os \<Rightarrow> string \<Rightarrow> string option" where
  "resolve st p =
     (if p = [] then None
      else map_option key_of
             (walk_path st (if hd p = CHR ''/'' then [] else cwd_components st)
                (path_components [] p)))"

definition node_at :: "os \<Rightarrow> string \<Rightarrow> node option" where
  "node_at st p = (case resolve st p of None \<Rightarrow> None | Some k \<Rightarrow> nodes st k)"

definition g_file_test_exists :: "os \<Rightarrow> string \<Rightarrow> bool" where
  "g_file_test_exists st filename = (node_at st filename \<noteq> None)"

definition g_file_test_is_regular :: "os \<Rightarrow> string \<Rightarrow> bool" where
  "g_file_test_is_regular st filename =
     (case node_at st filename of Some (Regular _) \<Rightarrow> True | _ \<Rightarrow> False)"

definition g_file_test_is_dir :: "os \<Rightarrow> string \<Rightarrow> bool" where
  "g_file_test_is_dir st filename =
     (case node_at st filename of Some (Directory _) \<Rightarrow> True | _ \<Rightarrow> False)"

text \<open>
  \<^verbatim>\<open>g_file_get_contents\<close>: the bytes of the file, or the message of the error. The
  caller reads the buffer as a C string, which ends at the first NUL byte. The source
  calls it for regular files only.
\<close>

definition c_string :: "string \<Rightarrow> string" where
  "c_string bytes = takeWhile (\<lambda>c. c \<noteq> CHR 0x00) bytes"

definition g_file_get_contents :: "os \<Rightarrow> string \<Rightarrow> string + string" where
  "g_file_get_contents st filename =
     (case node_at st filename of
        Some (Regular (Readable bytes)) \<Rightarrow> Inr (c_string bytes)
      | Some (Regular (Unreadable msg)) \<Rightarrow> Inl msg
      | Some (Directory _) \<Rightarrow> Inl ''Is a directory''
      | None \<Rightarrow> Inl ''No such file or directory'')"

text \<open>
  \<^verbatim>\<open>mkdir\<close>: fails when the path does not resolve, when something exists there or
  when the system does not permit it; otherwise the directory appears with the
  requested permission bits less those of the umask. (A missing name followed by a
  \<^verbatim>\<open>/\<close> does not resolve; the walk of \<^verbatim>\<open>g_mkdir_with_parents\<close> makes every prefix
  without its separator first and never asks for that.)
\<close>

definition sys_mkdir :: "os \<Rightarrow> string \<Rightarrow> mode_t \<Rightarrow> int \<times> os" where
  "sys_mkdir st p mode =
     (case resolve st p of
        None \<Rightarrow> (- 1, st)
      | Some k \<Rightarrow>
          if nodes st k \<noteq> None then (- 1, st)
          else if mkdir_permitted st k
          then (0, st\<lparr>nodes := (nodes st)(k \<mapsto> Directory (mode AND NOT (umask st)))\<rparr>)
          else (- 1, st))"

text \<open>
  \<^verbatim>\<open>g_mkdir_with_parents\<close> refuses the empty path and walks any other: every
  prefix that ends before a separator (repeated separators count once, and the leading
  ones of an absolute path belong to the first prefix), then the whole path. A prefix
  that does not exist is made with \<^verbatim>\<open>mkdir\<close>; one that exists has to be a
  directory. The walk stops at the first failure with \<open>-1\<close> and keeps what it has created.
\<close>

fun dir_prefixes :: "string \<Rightarrow> string \<Rightarrow> string list" where
  "dir_prefixes seen [] = [seen]"
| "dir_prefixes seen (c # cs) =
     (if c = CHR ''/'' \<and> seen \<noteq> [] \<and> last seen \<noteq> CHR ''/''
      then seen # dir_prefixes (seen @ [c]) cs
      else dir_prefixes (seen @ [c]) cs)"

fun mkdir_walk :: "os \<Rightarrow> string list \<Rightarrow> mode_t \<Rightarrow> int \<times> os" where
  "mkdir_walk st [] mode = (0, st)"
| "mkdir_walk st (fn # fns) mode =
     (if \<not> g_file_test_exists st fn then
        (case sys_mkdir st fn mode of
           (r, st1) \<Rightarrow> if r = - 1 then (- 1, st1) else mkdir_walk st1 fns mode)
      else if \<not> g_file_test_is_dir st fn then (- 1, st)
      else mkdir_walk st fns mode)"

definition g_mkdir_with_parents :: "os \<Rightarrow> string \<Rightarrow> mode_t \<Rightarrow> int \<times> os" where
  "g_mkdir_with_parents st pathname mode =
     (if pathname = [] then (- 1, st) else mkdir_walk st (dir_prefixes [] pathname) mode)"

text \<open>
  \<^verbatim>\<open>g_file_open_tmp\<close> creates an empty file under a fresh name and returns the name
  (the descriptor is identified with it); \<^verbatim>\<open>write\<close> stores the bytes it accepts;
  \<^verbatim>\<open>unlink\<close> removes the file.
\<close>

definition g_file_open_tmp :: "os \<Rightarrow> string option \<times> os" where
  "g_file_open_tmp st =
     (case open_tmp st of
        None \<Rightarrow> (None, st)
      | Some name \<Rightarrow> (Some name, st\<lparr>nodes := (nodes st)(name \<mapsto> Regular (Readable []))\<rparr>))"

definition sys_write :: "os \<Rightarrow> string \<Rightarrow> string \<Rightarrow> int \<Rightarrow> int \<times> os" where
  "sys_write st name buf len =
     (let bytes = (if write_limit st < len then write_limit st else len)
      in (bytes, st\<lparr>nodes := (nodes st)(name \<mapsto> Regular (Readable (take (nat bytes) buf)))\<rparr>))"

definition unlink :: "os \<Rightarrow> string \<Rightarrow> os" where
  "unlink st name = st\<lparr>nodes := (nodes st)(name := None)\<rparr>"

section \<open>Home directory and file reading\<close>

definition util_get_home_dir :: "os \<Rightarrow> string" where
  "util_get_home_dir st =
     (case g_getenv_HOME st of
        None \<Rightarrow> g_get_home_dir st
      | Some dir \<Rightarrow> dir)"

text \<open>
  The condition of the source is
  \<^verbatim>\<open>!(g_file_test(filename, G_FILE_TEST_IS_REGULAR) && g_file_get_contents(...))\<close>:
  when the test fails, the contents are not read and \<^verbatim>\<open>error\<close> stays \<^verbatim>\<open>NULL\<close>.
\<close>

definition util_get_file_contents :: "os \<Rightarrow> string \<Rightarrow> string option \<times> os" where
  "util_get_file_contents st filename =
     (if g_file_test_is_regular st filename then
        (case g_file_get_contents st filename of
           Inr content \<Rightarrow> (Some content, st)
         | Inl message \<Rightarrow>
             (None, fprintf_stderr st (''Cannot open '' @ filename @ '': '' @ message @ [CHR 0x0A])))
      else
        (None, fprintf_stderr st (''Cannot open '' @ filename @ '': '' @ ''file not found'' @ [CHR 0x0A])))"

definition util_get_lines :: "os \<Rightarrow> string \<Rightarrow> string list option \<times> os" where
  "util_get_lines st filename =
     (case util_get_file_contents st filename of
        (None, st') \<Rightarrow> (None, st')
      | (Some content, st') \<Rightarrow> (g_strsplit (Some content) (Some [CHR 0x0A]), st'))"

section \<open>util_file_to_unique_list\<close>

text \<open>
  The scan \<^verbatim>\<open>for (GList *l = gl; l; l = l->next)\<close>: the first entry for which
  \<^verbatim>\<open>unique_func(value, l->data)\<close> is 0 is unlinked and the scan stops.
  \<^verbatim>\<open>free_func\<close> only releases the memory of the removed entry.
\<close>

fun remove_equal :: "('a \<Rightarrow> 'a \<Rightarrow> int) \<Rightarrow> 'a \<Rightarrow> 'a list \<Rightarrow> 'a list" where
  "remove_equal unique_func v [] = []"
| "remove_equal unique_func v (d # l) =
     (if unique_func v d = 0 then l else d # remove_equal unique_func v l)"

text \<open>The loop over the lines; \<open>gl\<close> is the list with the newest entry first.\<close>

fun unique_list_loop ::
  "(string \<Rightarrow> 'a option) \<Rightarrow> ('a \<Rightarrow> 'a \<Rightarrow> int) \<Rightarrow> string list \<Rightarrow> 'a list \<Rightarrow> 'a list" where
  "unique_list_loop func unique_func [] gl = gl"
| "unique_list_loop func unique_func (line # lines) gl =
     (let line' = g_strstrip line in
      if line' = [] then unique_list_loop func unique_func lines gl
      else
        (case func line' of
           None \<Rightarrow> unique_list_loop func unique_func lines gl
         | Some v \<Rightarrow> unique_list_loop func unique_func lines (v # remove_equal unique_func v gl)))"

definition int_of_guint :: "int \<Rightarrow> int" where
  "int_of_guint k = signed_take_bit 31 k"

text \<open>
  \<^verbatim>\<open>len\<close> is an \<^verbatim>\<open>int\<close>; the loop visits \<^verbatim>\<open>lines[0]\<close> .. \<^verbatim>\<open>lines[len - 1]\<close>.
\<close>

definition util_file_to_unique_list ::
  "os \<Rightarrow> string \<Rightarrow> (string \<Rightarrow> 'a option) \<Rightarrow> ('a \<Rightarrow> 'a \<Rightarrow> int) \<Rightarrow> 'a list \<times> os" where
  "util_file_to_unique_list st filename func unique_func =
     (case util_get_lines st filename of
        (lines, st') \<Rightarrow>
          (let len = int_of_guint (g_strv_length lines) in
           if len = 0 then ([], st')
           else
             (case lines of
                None \<Rightarrow> ([], st')
              | Some ls \<Rightarrow> (rev (unique_list_loop func unique_func (take (nat len) ls) []), st'))))"


section \<open>util_create_tmp_file\<close>

text \<open>
  The caller passes the address of a \<^verbatim>\<open>char *\<close> variable. \<open>file_in\<close> is what that
  variable holds before the call, \<^verbatim>\<open>NULL\<close> or a string (\<^verbatim>\<open>g_file_open_tmp\<close>
  leaves it alone when it fails, and the source then prints and frees it). After the call
  the variable holds the path that \<^verbatim>\<open>g_file_open_tmp\<close> stored there, or a pointer
  that has been passed to \<^verbatim>\<open>g_free\<close>. The name template is
  \<^verbatim>\<open>PROJECT "-XXXXXX"\<close>; the name itself is the system's choice, \<open>open_tmp\<close>.
  \<^verbatim>\<open>len\<close> and \<^verbatim>\<open>bytes\<close> are \<^verbatim>\<open>ssize_t\<close>, wide enough for every length.
\<close>

datatype path_out = Path string | Freed

definition util_create_tmp_file :: "os \<Rightarrow> string \<Rightarrow> string option \<Rightarrow> bool \<times> path_out \<times> os" where
  "util_create_tmp_file st content file_in =
     (case g_file_open_tmp st of
        (None, st1) \<Rightarrow>
          (False, Freed,
           fprintf_stderr st1 (''Could not create temporary file '' @
             (case file_in of None \<Rightarrow> ''(null)'' | Some f \<Rightarrow> f)))
      | (Some name, st1) \<Rightarrow>
          (let len = int (length content) in
           case sys_write st1 name content len of
             (bytes, st2) \<Rightarrow>
               if bytes < len then
                 (False, Freed,
                  fprintf_stderr (unlink st2 name) (''Could not write temporary file '' @ name))
               else (True, Path name, st2)))"

section \<open>util_build_path\<close>

text \<open>\<^verbatim>\<open>s[k]\<close> for an index up to the terminator, and \<^verbatim>\<open>strrchr\<close>.\<close>

definition char_at :: "string \<Rightarrow> nat \<Rightarrow> char" where
  "char_at s k = (if k < length s then s ! k else CHR 0x00)"

fun strrchr :: "string \<Rightarrow> char \<Rightarrow> nat option" where
  "strrchr [] c = None"
| "strrchr (x # xs) c =
     (case strrchr xs c of
        Some k \<Rightarrow> Some (Suc k)
      | None \<Rightarrow> if x = c then Some 0 else None)"

text \<open>
  The value that the chain of conditions at the head of the function gives to
  \<^verbatim>\<open>fullPath\<close>; \<^verbatim>\<open>&path[1]\<close> is the path without its first character.
\<close>

definition full_path :: "os \<Rightarrow> string \<Rightarrow> string option \<Rightarrow> string" where
  "full_path st path dir =
     (if char_at path 0 = CHR ''/'' then path
      else if char_at path 0 = CHR ''~'' then
        (if char_at path 1 = CHR ''/'' then g_get_home_dir st @ drop 1 path
         else g_get_home_dir st @ ''/'' @ drop 1 path)
      else
        (case dir of
           Some d \<Rightarrow> d @ ''/'' @ path
         | None \<Rightarrow> g_get_current_dir st @ ''/'' @ path))"

text \<open>
  The mode \<^verbatim>\<open>0700\<close> is octal. The source cuts \<^verbatim>\<open>fullPath\<close> at its last
  \<^verbatim>\<open>/\<close> for the call of \<^verbatim>\<open>g_mkdir_with_parents\<close>, does not look at the result
  of the call, and restores the \<^verbatim>\<open>/\<close>.
\<close>

definition mode_0700 :: mode_t where
  "mode_0700 = 448"

definition util_build_path :: "os \<Rightarrow> string \<Rightarrow> string option \<Rightarrow> string \<times> os" where
  "util_build_path st path dir =
     (let fullPath = full_path st path dir in
      case strrchr fullPath (CHR ''/'') of
        Some p \<Rightarrow> (fullPath, snd (g_mkdir_with_parents st (take p fullPath) mode_0700))
      | None \<Rightarrow> (fullPath, st))"


section \<open>Reference definitions of the specification\<close>


fun spec_remove :: "('a \<Rightarrow> 'a \<Rightarrow> bool) \<Rightarrow> 'a \<Rightarrow> 'a list \<Rightarrow> 'a list" where
  "spec_remove equals v [] = []"
| "spec_remove equals v (e # es) =
     (if list_ex (equals v) es then e # spec_remove equals v es
      else if equals v e then es
      else e # es)"

text \<open>
  Trimming: white space is the space, the horizontal tab, the newline, the form feed and
  the carriage return. Leading white space goes first; of what is left, a character stays
  when it is not white space or when something stays behind it.
\<close>

definition spec_is_space :: "char \<Rightarrow> bool" where
  "spec_is_space c = (c \<in> set [CHR '' '', CHR 0x09, CHR 0x0A, CHR 0x0C, CHR 0x0D])"

fun spec_trim_leading :: "string \<Rightarrow> string" where
  "spec_trim_leading [] = []"
| "spec_trim_leading (c # cs) = (if spec_is_space c then spec_trim_leading cs else c # cs)"

fun spec_trim_trailing :: "string \<Rightarrow> string" where
  "spec_trim_trailing [] = []"
| "spec_trim_trailing (c # cs) =
     (if spec_trim_trailing cs = [] \<and> spec_is_space c then [] else c # spec_trim_trailing cs)"

definition spec_trim :: "string \<Rightarrow> string" where
  "spec_trim s = spec_trim_trailing (spec_trim_leading s)"

definition spec_parse_line :: "(string \<Rightarrow> 'a option) \<Rightarrow> string \<Rightarrow> 'a option" where
  "spec_parse_line parse line =
     (let trimmed = spec_trim line in if trimmed = [] then None else parse trimmed)"

definition spec_insert :: "('a \<Rightarrow> 'a \<Rightarrow> bool) \<Rightarrow> 'a list \<Rightarrow> 'a \<Rightarrow> 'a list" where
  "spec_insert equals acc v = spec_remove equals v acc @ [v]"

definition spec_step ::
  "(string \<Rightarrow> 'a option) \<Rightarrow> ('a \<Rightarrow> 'a \<Rightarrow> bool) \<Rightarrow> 'a list \<Rightarrow> string \<Rightarrow> 'a list" where
  "spec_step parse equals acc line =
     (case spec_parse_line parse line of
        None \<Rightarrow> acc
      | Some v \<Rightarrow> spec_insert equals acc v)"




definition equal_under :: "('a \<Rightarrow> 'a \<Rightarrow> int) \<Rightarrow> 'a \<Rightarrow> 'a \<Rightarrow> bool" where
  "equal_under unique_func a b = (unique_func a b = 0)"

definition is_equivalence :: "('a \<Rightarrow> 'a \<Rightarrow> bool) \<Rightarrow> bool" where
  "is_equivalence equals =
     ((\<forall>a. equals a a) \<and>
      (\<forall>a b. equals a b \<longrightarrow> equals b a) \<and>
      (\<forall>a b c. equals a b \<and> equals b c \<longrightarrow> equals a c))"

text \<open>No two entries at different positions of the list are equal.\<close>

definition no_equal_entries :: "('a \<Rightarrow> 'a \<Rightarrow> bool) \<Rightarrow> 'a list \<Rightarrow> bool" where
  "no_equal_entries equals xs =
     (\<forall>i < length xs. \<forall>j < length xs. i \<noteq> j \<longrightarrow> \<not> equals (xs ! i) (xs ! j))"

section \<open>Notions used in the statements\<close>

text \<open>The largest \<^verbatim>\<open>int\<close>.\<close>

definition INT_MAX :: nat where
  "INT_MAX = 2147483647"

text \<open>The search string occurs somewhere in the text.\<close>

definition occurs_in :: "string \<Rightarrow> string \<Rightarrow> bool" where
  "occurs_in search text =
     list_ex (\<lambda>k. take (length search) (drop k text) = search) [0 ..< Suc (length text)]"

text \<open>
  The first match at or after offset \<open>lo\<close>: \<open>Some m\<close> when the needle matches at \<open>m\<close> and
  at no offset from \<open>lo\<close> up to \<open>m\<close>, \<open>None\<close> when it matches at no offset from \<open>lo\<close> on.
\<close>

definition first_from :: "string \<Rightarrow> string \<Rightarrow> nat \<Rightarrow> nat option \<Rightarrow> bool" where
  "first_from haystack needle lo r =
     (case r of
        None \<Rightarrow> \<forall>k. lo \<le> k \<longrightarrow> \<not> matches_at haystack needle k
      | Some m \<Rightarrow>
          lo \<le> m \<and> matches_at haystack needle m \<and>
          (\<forall>k. lo \<le> k \<and> k < m \<longrightarrow> \<not> matches_at haystack needle k))"

text \<open>
  A small system for the examples: a root and four directories below it, six regular
  files (one with blank lines, one with white space around its lines), \<^verbatim>\<open>HOME\<close> set to
  a directory other than the one of the user database, the umask 022, and an operating
  system that permits every \<^verbatim>\<open>mkdir\<close>.
\<close>

definition example_os :: os where
  "example_os =
     \<lparr>nodes = [''/'' \<mapsto> Directory 493, ''/etc'' \<mapsto> Directory 493, ''/base'' \<mapsto> Directory 493,
               ''/cwd'' \<mapsto> Directory 493, ''/tmp'' \<mapsto> Directory 1023,
               ''/base/blank'' \<mapsto> Regular (Readable ''  \<newline>\<newline>foo\<newline>''),
               ''/base/spaced'' \<mapsto> Regular (Readable ('' a '' @ [CHR 0x09, CHR 0x0A, CHR 0x09] @ ''b'' @ [CHR 0x0D, CHR 0x0A] @ '' a'')),
               ''/etc/passwd'' \<mapsto> Regular (Readable ''root:x:0:0''),
               ''/etc/shadow'' \<mapsto> Regular (Unreadable ''Permission denied''),
               ''/base/list'' \<mapsto> Regular (Readable ''a\<newline>b\<newline>a\<newline>''),
               ''/base/uniq'' \<mapsto> Regular (Readable ''x\<newline>y\<newline>z'')],
      stderr = [],
      env_HOME = Some ''/tmp/h'',
      home_dir = ''/home/u'',
      current_dir = ''/cwd'',
      umask = 18,
      mkdir_permitted = (\<lambda>p. True),
      open_tmp = Some ''/tmp/vimb-Ab12Cd'',
      write_limit = 3\<rparr>"

text \<open>The same system with the umask 0277.\<close>

definition masked_os :: os where
  "masked_os = example_os\<lparr>umask := 191\<rparr>"



text \<open>\<^verbatim>\<open>strcmp\<close>-like comparison of two parsed lines: 0 exactly for equal strings.\<close>

definition compare_strings :: "string \<Rightarrow> string \<Rightarrow> int" where
  "compare_strings a b = (if a = b then 0 else 1)"

text \<open>The parent-directory portion of a path: the prefix before its last \<^verbatim>\<open>/\<close>.\<close>

definition parent_portion :: "string \<Rightarrow> string option" where
  "parent_portion s = (case strrchr s (CHR ''/'') of Some p \<Rightarrow> Some (take p s) | None \<Rightarrow> None)"

text \<open>
  The second state is the first with directories added where there was nothing, and the
  same current directory and umask.
\<close>

definition only_adds_directories :: "os \<Rightarrow> os \<Rightarrow> bool" where
  "only_adds_directories st st' =
     (current_dir st' = current_dir st \<and> umask st' = umask st \<and>
      (\<forall>q. nodes st' q = nodes st q \<or>
           (nodes st q = None \<and> (\<exists>m. nodes st' q = Some (Directory m)))))"

declare strcasestr_inner.simps [simp del] strcasestr_outer.simps [simp del]
declare split_tokens.simps [simp del]

section \<open>Properties of util_strcasestr\<close>


text \<open>
  For a needle of at most \<open>INT_MAX\<close> bytes and a haystack at most \<open>INT_MAX - 1\<close> bytes
  longer than it, the two length variables of the source hold the mathematical values.
\<close>

lemma take_bit_64_length: "n < 2 ^ 32 \<Longrightarrow> take_bit 64 (int n) = int n"
  by (rule take_bit_int_eq_self) simp_all

lemma nlen_exact:
  assumes "length needle \<le> INT_MAX"
  shows "int_of_size_t (strlen needle) = int (length needle)"
proof -
  from assms have small: "length needle < 2 ^ 31" by (simp add: INT_MAX_def)
  then have "length needle < 2 ^ 32" by simp
  with small show ?thesis
    unfolding int_of_size_t_def strlen_def
    by (simp add: take_bit_64_length signed_take_bit_int_eq_self)
qed

lemma hlen_exact:
  assumes "length needle \<le> INT_MAX" and "length haystack - length needle < INT_MAX"
  shows "int_of_size_t (size_t_arith (strlen haystack - size_t_arith (int (length needle)) + 1))
           = int (length haystack) - int (length needle) + 1"
proof -
  from assms have ns: "length needle < 2 ^ 31"
    and d: "int (length haystack) - int (length needle) + 1 < 2 ^ 31"
    by (simp_all add: INT_MAX_def)
  from ns d have hs: "length haystack < 2 ^ 32" by simp
  from ns have ns': "length needle < 2 ^ 32" by simp
  have a: "take_bit 64 (int (length haystack)) = int (length haystack)"
    using hs by (rule take_bit_64_length)
  have b: "take_bit 64 (int (length needle)) = int (length needle)"
    using ns' by (rule take_bit_64_length)
  have lower: "- (2 ^ 31) \<le> int (length haystack) - int (length needle) + 1"
    using ns by simp
  have c: "signed_take_bit 31 (int (length haystack) - int (length needle) + 1)
             = int (length haystack) - int (length needle) + 1"
    using lower d by (intro signed_take_bit_int_eq_self) simp_all
  show ?thesis
    unfolding int_of_size_t_def strlen_def size_t_arith_def a b
    by (simp add: signed_take_bit_take_bit c)
qed

text \<open>\<^verbatim>\<open>toupper\<close> is the folding of the table, on every byte.\<close>

lemma letters_are_lower_case:
  "c \<in> set ''abcdefghijklmnopqrstuvwxyz'' \<Longrightarrow>
     97 \<le> (of_char c :: nat) \<and> (of_char c :: nat) \<le> 122"
  by auto

lemma lower_case_codes_a_to_m:
  "[97 ..< 110] = [97 :: nat, 98, 99, 100, 101, 102, 103, 104, 105, 106, 107, 108, 109]"
  by (simp add: upt_rec_numeral)

lemma lower_case_codes_n_to_z:
  "[110 ..< 123] = [110 :: nat, 111, 112, 113, 114, 115, 116, 117, 118, 119, 120, 121, 122]"
  by (simp add: upt_rec_numeral)

lemma toupper_ascii_upper: "toupper c = ascii_upper c"
proof (cases "97 \<le> (of_char c :: nat) \<and> (of_char c :: nat) \<le> 122")
  case False
  then have "c \<notin> set ''abcdefghijklmnopqrstuvwxyz''"
    using letters_are_lower_case by blast
  then have none:
    "map_of (zip ''abcdefghijklmnopqrstuvwxyz'' ''ABCDEFGHIJKLMNOPQRSTUVWXYZ'') c = None"
    by (simp add: map_of_eq_None_iff)
  have "ascii_upper c = c" by (simp only: ascii_upper_def none option.case)
  moreover have "toupper c = c" using False by (auto simp: toupper_def Let_def)
  ultimately show ?thesis by simp
next
  case True
  define n where "n = (of_char c :: nat)"
  have c: "c = char_of n" by (simp add: n_def)
  from True have "n \<in> {97 ..< 110} \<or> n \<in> {110 ..< 123}" by (auto simp: n_def)
  then have "n \<in> set [97 ..< 110] \<or> n \<in> set [110 ..< 123]" by (simp only: set_upt)
  then have "n = 97 \<or> n = 98 \<or> n = 99 \<or> n = 100 \<or> n = 101 \<or> n = 102 \<or> n = 103 \<or>
     n = 104 \<or> n = 105 \<or> n = 106 \<or> n = 107 \<or> n = 108 \<or> n = 109 \<or> n = 110 \<or>
     n = 111 \<or> n = 112 \<or> n = 113 \<or> n = 114 \<or> n = 115 \<or> n = 116 \<or> n = 117 \<or>
     n = 118 \<or> n = 119 \<or> n = 120 \<or> n = 121 \<or> n = 122"
    unfolding lower_case_codes_a_to_m lower_case_codes_n_to_z
    by (simp only: set_simps insert_iff empty_iff simp_thms disj_assoc)
  then have "toupper (char_of n) = ascii_upper (char_of n)"
    by (elim disjE) (simp_all add: toupper_def ascii_upper_def Let_def char_of_eq_iff)
  then show ?thesis by (simp add: c)
qed

lemma matches_at_nth:
  "matches_at h n i \<longleftrightarrow>
     i + length n \<le> length h \<and> (\<forall>k. k < length n \<longrightarrow> toupper (h ! (i + k)) = toupper (n ! k))"
  by (auto simp: matches_at_def list_eq_iff_nth_eq toupper_ascii_upper)

text \<open>
  The inner loop, started inside a window that fits into the haystack, reads inside both
  buffers only and tells whether the rest of the window matches.
\<close>

lemma strcasestr_inner_window:
  "0 \<le> i \<Longrightarrow> 0 \<le> j \<Longrightarrow> j \<le> int (length n) \<Longrightarrow> i + int (length n) \<le> int (length h) \<Longrightarrow>
   strcasestr_inner h n (int (length n)) i j =
     Inr (\<forall>k. nat j \<le> k \<and> k < length n \<longrightarrow> toupper (h ! (nat i + k)) = toupper (n ! k))"
proof (induction h n "int (length n)" i j rule: strcasestr_inner.induct)
  case (1 h n i j)
  show ?case
  proof (cases "j < int (length n)")
    case False
    with 1 show ?thesis by (subst strcasestr_inner.simps) auto
  next
    case True
    with 1 have bh: "byte_at h (i + j) = Some (h ! (nat i + nat j))"
      by (auto simp: byte_at_def nat_add_distrib)
    from True 1 have bn: "byte_at n j = Some (n ! nat j)"
      by (auto simp: byte_at_def)
    show ?thesis
    proof (cases "toupper (h ! (nat i + nat j)) = toupper (n ! nat j)")
      case False
      have "\<not> (\<forall>k. nat j \<le> k \<and> k < length n \<longrightarrow> toupper (h ! (nat i + k)) = toupper (n ! k))"
        using False True 1(3) by (intro notI) (auto dest!: spec[of _ "nat j"])
      with False True bh bn show ?thesis
        by (subst strcasestr_inner.simps) simp
    next
      case eq: True
      have ih: "strcasestr_inner h n (int (length n)) i (j + 1) =
        Inr (\<forall>k. nat (j + 1) \<le> k \<and> k < length n \<longrightarrow> toupper (h ! (nat i + k)) = toupper (n ! k))"
        using 1(1)[OF True bh bn] eq 1(2-5) True by simp
      have "(\<forall>k. nat (j + 1) \<le> k \<and> k < length n \<longrightarrow> toupper (h ! (nat i + k)) = toupper (n ! k))
          = (\<forall>k. nat j \<le> k \<and> k < length n \<longrightarrow> toupper (h ! (nat i + k)) = toupper (n ! k))"
      proof -
        have "nat (j + 1) = Suc (nat j)" using 1(3) by simp
        then show ?thesis
          using eq by (auto simp: le_Suc_eq Suc_le_eq elim: allE) (metis Suc_leI le_neq_implies_less)
      qed
      with ih eq True bh bn show ?thesis
        by (subst strcasestr_inner.simps) simp
    qed
  qed
qed

lemma strcasestr_inner_matches:
  assumes "0 \<le> i" and "i + int (length n) \<le> int (length h)"
  shows "strcasestr_inner h n (int (length n)) i 0 = Inr (matches_at h n (nat i))"
proof -
  have "nat i + length n \<le> length h" using assms by linarith
  then show ?thesis
    using strcasestr_inner_window[OF assms(1) _ _ assms(2), of 0] by (simp add: matches_at_nth)
qed

lemma first_from_step:
  assumes "\<not> matches_at h n lo" and "first_from h n (Suc lo) r"
  shows "first_from h n lo r"
proof -
  have split: "\<And>k. lo \<le> k \<Longrightarrow> k = lo \<or> Suc lo \<le> k" by auto
  show ?thesis
  proof (cases r)
    case None
    with assms show ?thesis unfolding first_from_def using split by force
  next
    case (Some m)
    with assms have a: "Suc lo \<le> m" "matches_at h n m"
      and b: "\<And>k. Suc lo \<le> k \<Longrightarrow> k < m \<Longrightarrow> \<not> matches_at h n k"
      unfolding first_from_def by auto
    have "\<not> matches_at h n k" if "lo \<le> k" "k < m" for k
      using split[OF that(1)] assms(1) b that(2) by auto
    with a Some show ?thesis unfolding first_from_def by auto
  qed
qed

text \<open>The outer loop finds the first match at or after its start offset.\<close>

lemma strcasestr_outer_first:
  "0 \<le> i \<Longrightarrow> hlen = int (length h) - int (length n) + 1 \<Longrightarrow> nlen = int (length n) \<Longrightarrow>
   \<exists>r. strcasestr_outer h n nlen hlen i = Inr r \<and> first_from h n (nat i) r"
proof (induction h n nlen hlen i rule: strcasestr_outer.induct)
  case (1 h n nlen hlen i)
  show ?case
  proof (cases "i < hlen")
    case False
    then have "\<forall>k. nat i \<le> k \<longrightarrow> \<not> matches_at h n k"
      using 1(2,3) unfolding matches_at_def by (intro allI impI) linarith
    with False show ?thesis
      by (subst strcasestr_outer.simps) (simp add: first_from_def)
  next
    case True
    then have inner: "strcasestr_inner h n nlen i 0 = Inr (matches_at h n (nat i))"
      using 1(2,3,4) strcasestr_inner_matches[of i n h] by simp
    show ?thesis
    proof (cases "matches_at h n (nat i)")
      case m: True
      with inner True show ?thesis
        by (subst strcasestr_outer.simps) (auto simp add: first_from_def)
    next
      case m: False
      have mf: "matches_at h n (nat i) = False" using m by simp
      have nonneg: "0 \<le> i + 1" using 1(2) by simp
      have "\<exists>r. strcasestr_outer h n nlen hlen (i + 1) = Inr r \<and> first_from h n (nat (i + 1)) r"
        by (rule 1(1)[OF True inner mf nonneg 1(3) 1(4)])
      then obtain r where r: "strcasestr_outer h n nlen hlen (i + 1) = Inr r"
        and f: "first_from h n (nat (i + 1)) r" by blast
      have s: "nat (i + 1) = Suc (nat i)" using 1(2) by simp
      have "first_from h n (nat i) r"
        by (rule first_from_step[OF m f[unfolded s]])
      with r inner m True show ?thesis
        by (subst strcasestr_outer.simps) simp
    qed
  qed
qed

lemma util_strcasestr_first_from:
  assumes "length needle \<le> INT_MAX" and "length haystack - length needle < INT_MAX"
  shows "\<exists>r. util_strcasestr haystack needle = Inr r \<and> first_from haystack needle 0 r"
  using strcasestr_outer_first[of 0 "int (length haystack) - int (length needle) + 1"
      haystack needle "int (length needle)"] assms
  by (simp add: util_strcasestr_def nlen_exact hlen_exact Let_def)





text \<open>
  Claim C10, as stated for every haystack, fails. For a haystack of \<open>INT_MAX\<close> bytes
  \<^verbatim>\<open>hlen = strlen(haystack) + 1\<close> does not fit an \<^verbatim>\<open>int\<close> and becomes negative, the outer
  loop is not entered, and util_strcasestr returns \<^verbatim>\<open>NULL\<close> for the empty needle.
\<close>

theorem util_strcasestr_empty_needle_counterexample:
  "util_strcasestr (replicate 2147483647 (CHR ''a'')) [] = Inr None"
proof -
  have l: "length (replicate 2147483647 (CHR ''a'')) = 2147483647"
    by (rule length_replicate)
  have nlen: "int_of_size_t (strlen []) = 0"
    by (simp add: int_of_size_t_def strlen_def)
  have hlen: "int_of_size_t (size_t_arith (strlen (replicate 2147483647 (CHR ''a'')) - size_t_arith 0 + 1))
      = - 2147483648"
    unfolding strlen_def l by (simp add: int_of_size_t_def size_t_arith_def)
  have "strcasestr_outer (replicate 2147483647 (CHR ''a'')) [] 0 (- 2147483648) 0 = Inr None"
    by (subst strcasestr_outer.simps) simp
  then show ?thesis
    by (simp only: util_strcasestr_def Let_def nlen hlen)
qed

text \<open>
  Claim C10, amended. For every haystack shorter than \<open>INT_MAX\<close> bytes, util_strcasestr
  with an empty needle returns the start of the haystack (offset 0).
\<close>

theorem util_strcasestr_empty_needle:
  assumes "length haystack < INT_MAX"
  shows "util_strcasestr haystack [] = Inr (Some 0)"
proof -
  have n: "length ([] :: string) \<le> INT_MAX" by simp
  have d: "length haystack - length ([] :: string) < INT_MAX" using assms by simp
  from util_strcasestr_first_from[OF n d] obtain r
    where r: "util_strcasestr haystack [] = Inr r" and f: "first_from haystack [] 0 r"
    by blast
  have m0: "matches_at haystack [] 0" by (simp add: matches_at_def)
  have "r = Some 0"
  proof (cases r)
    case None
    with f m0 show ?thesis by (simp add: first_from_def)
  next
    case (Some m)
    with f have "\<forall>k. k < m \<longrightarrow> \<not> matches_at haystack [] k" by (simp add: first_from_def)
    with m0 have "\<not> 0 < m" by blast
    with Some show ?thesis by simp
  qed
  with r show ?thesis by simp
qed

theorem util_strcasestr_empty_needle_witness:
  "length ''abc'' < INT_MAX \<and> util_strcasestr ''abc'' [] = Inr (Some 0) \<and>
   length ([] :: string) < INT_MAX \<and> util_strcasestr [] [] = Inr (Some 0)"
proof -
  have h: "length ''abc'' < INT_MAX" by (simp add: INT_MAX_def)
  have e: "length ([] :: string) < INT_MAX" by (simp add: INT_MAX_def)
  show ?thesis
    by (intro conjI h e util_strcasestr_empty_needle[OF h] util_strcasestr_empty_needle[OF e])
qed

text \<open>The two searches of the specification's examples.\<close>

lemma util_strcasestr_example_found: "util_strcasestr ''HeLLo World'' ''world'' = Inr (Some 6)"
  by code_simp

lemma util_strcasestr_example_longer_needle: "util_strcasestr ''abc'' ''abcd'' = Inr None"
  by code_simp

section \<open>Properties of util_str_replace\<close>

lemma strstr_Some_window: "strstr s d = Some k \<Longrightarrow> take (length d) (drop k s) = d"
proof (induction s arbitrary: k)
  case Nil
  then show ?case by (simp split: if_splits)
next
  case (Cons c cs)
  show ?case
  proof (cases "take (length d) (c # cs) = d")
    case True
    with Cons.prems show ?thesis by simp
  next
    case False
    with Cons.prems obtain k' where k': "strstr cs d = Some k'" "k = Suc k'" by auto
    from Cons.IH[OF k'(1)] k'(2) show ?thesis by simp
  qed
qed

lemma strstr_None_if_absent:
  assumes "\<not> occurs_in d s"
  shows "strstr s d = None"
proof (cases "strstr s d")
  case None
  then show ?thesis .
next
  case (Some k)
  from strstr_Some_le[OF Some] have "k \<le> length s" by simp
  with strstr_Some_window[OF Some] assms show ?thesis
    unfolding occurs_in_def list_ex_iff by auto
qed

lemma split_tokens_absent:
  assumes "\<not> occurs_in d s"
  shows "split_tokens s d = [s]"
  by (subst split_tokens.simps) (simp add: strstr_None_if_absent[OF assms])

text \<open>
  Claim C9. util_str_replace returns \<^verbatim>\<open>NULL\<close> for a \<^verbatim>\<open>NULL\<close> text, whatever the
  search and replacement strings are; and for a text in which the non-empty search string
  does not occur, it returns a string equal to the text.
\<close>

theorem util_str_replace_null_and_identity:
  "util_str_replace search_or_null replace None = None \<and>
   (search \<noteq> [] \<and> \<not> occurs_in search text \<longrightarrow>
      util_str_replace (Some search) replace (Some text) = Some text)"
proof (intro conjI impI)
  show "util_str_replace search_or_null replace None = None"
    by (simp add: util_str_replace_def)
next
  assume a: "search \<noteq> [] \<and> \<not> occurs_in search text"
  show "util_str_replace (Some search) replace (Some text) = Some text"
  proof (cases "text = []")
    case True
    with a show ?thesis
      by (simp add: util_str_replace_def g_strsplit_def g_strjoinv_def)
  next
    case False
    from a have "split_tokens text search = [text]" by (simp add: split_tokens_absent)
    with a False show ?thesis
      by (simp add: util_str_replace_def g_strsplit_def g_strjoinv_def)
  qed
qed

theorem util_str_replace_null_and_identity_witness:
  "''x'' \<noteq> [] \<and> \<not> occurs_in ''x'' ''banana'' \<and>
   util_str_replace (Some ''x'') (Some ''y'') (Some ''banana'') = Some ''banana''"
proof -
  have a: "''x'' \<noteq> [] \<and> \<not> occurs_in ''x'' ''banana''" by code_simp
  from util_str_replace_null_and_identity[of None "Some ''y''" "''x''" "''banana''"] a
  have "util_str_replace (Some ''x'') (Some ''y'') (Some ''banana'') = Some ''banana''" by blast
  with a show ?thesis by blast
qed

text \<open>Where the search string occurs, every occurrence is replaced.\<close>

lemma util_str_replace_example:
  "util_str_replace (Some ''a'') (Some ''bb'') (Some ''banana'') = Some ''bbbnbbnbb''"
  by code_simp

section \<open>Properties of util_build_path\<close>

lemma strrchr_finds: "c \<in> set s \<Longrightarrow> strrchr s c \<noteq> None"
  by (induction s) (auto split: option.splits)

lemma full_path_has_slash: "CHR ''/'' \<in> set (full_path st path dir)"
proof (cases path)
  case Nil
  then show ?thesis by (cases dir) (simp_all add: full_path_def char_at_def)
next
  case (Cons c cs)
  show ?thesis
  proof (cases cs)
    case Nil
    with Cons show ?thesis by (cases dir) (auto simp: full_path_def char_at_def)
  next
    case (Cons d ds)
    with \<open>path = c # cs\<close> show ?thesis by (cases dir) (auto simp: full_path_def char_at_def)
  qed
qed

lemma fst_util_build_path: "fst (util_build_path st path dir) = full_path st path dir"
  by (simp add: util_build_path_def Let_def split: option.splits)

text \<open>
  Claim C2. util_build_path dispatches with fixed precedence. For a path that starts with
  \<^verbatim>\<open>/\<close> the result is the path itself, whatever \<open>dir\<close> is. Otherwise, for a path that
  starts with \<^verbatim>\<open>~\<close>, the home directory replaces the \<^verbatim>\<open>~\<close>, and a \<^verbatim>\<open>/\<close> is
  inserted exactly when the character after the \<^verbatim>\<open>~\<close> is not a \<^verbatim>\<open>/\<close>; again \<open>dir\<close>
  plays no part. Otherwise the result is \<open>dir\<close>, \<^verbatim>\<open>/\<close> and the path when \<open>dir\<close> is given,
  and the current working directory, \<^verbatim>\<open>/\<close> and the path when it is \<^verbatim>\<open>NULL\<close>.
\<close>

theorem util_build_path_dispatch:
  "(take 1 path = ''/'' \<longrightarrow> fst (util_build_path st path dir) = path) \<and>
   (take 1 path = ''~'' \<and> take 1 (drop 1 path) = ''/'' \<longrightarrow>
      fst (util_build_path st path dir) = g_get_home_dir st @ drop 1 path) \<and>
   (take 1 path = ''~'' \<and> take 1 (drop 1 path) \<noteq> ''/'' \<longrightarrow>
      fst (util_build_path st path dir) = g_get_home_dir st @ ''/'' @ drop 1 path) \<and>
   (take 1 path \<noteq> ''/'' \<and> take 1 path \<noteq> ''~'' \<longrightarrow>
      fst (util_build_path st path (Some d)) = d @ ''/'' @ path \<and>
      fst (util_build_path st path None) = g_get_current_dir st @ ''/'' @ path)"
proof -
  have c0: "char_at path 0 = CHR ''/'' \<longleftrightarrow> take 1 path = ''/''"
    by (cases path) (simp_all add: char_at_def)
  have c1: "char_at path 0 = CHR ''~'' \<longleftrightarrow> take 1 path = ''~''"
    by (cases path) (simp_all add: char_at_def)
  have c2: "char_at path 1 = CHR ''/'' \<longleftrightarrow> take 1 (drop 1 path) = ''/''"
  proof (cases path)
    case Nil
    then show ?thesis by (simp add: char_at_def)
  next
    case (Cons c cs)
    then show ?thesis by (cases cs) (simp_all add: char_at_def)
  qed
  show ?thesis
    unfolding fst_util_build_path full_path_def c0 c1 c2 by simp
qed

theorem util_build_path_dispatch_witness:
  "take 1 ''/a/b'' = ''/'' \<and>
   fst (util_build_path example_os ''/a/b'' (Some ''/base'')) = ''/a/b'' \<and>
   take 1 ''~/x'' = ''~'' \<and> take 1 (drop 1 ''~/x'') = ''/'' \<and>
   fst (util_build_path example_os ''~/x'' (Some ''/base'')) = ''/home/u/x'' \<and>
   take 1 ''~x'' = ''~'' \<and> take 1 (drop 1 ''~x'') \<noteq> ''/'' \<and>
   fst (util_build_path example_os ''~x'' (Some ''/base'')) = ''/home/u/x'' \<and>
   take 1 ''c.txt'' \<noteq> ''/'' \<and> take 1 ''c.txt'' \<noteq> ''~'' \<and>
   fst (util_build_path example_os ''c.txt'' (Some ''/base'')) = ''/base/c.txt'' \<and>
   fst (util_build_path example_os ''c.txt'' None) = ''/cwd/c.txt''"
proof -
  have home: "g_get_home_dir example_os = ''/home/u''"
    by (simp add: g_get_home_dir_def example_os_def)
  have cwd: "g_get_current_dir example_os = ''/cwd''"
    by (simp add: g_get_current_dir_def example_os_def)
  from util_build_path_dispatch[of "''/a/b''" example_os "Some ''/base''"]
  have a: "fst (util_build_path example_os ''/a/b'' (Some ''/base'')) = ''/a/b''" by simp
  from util_build_path_dispatch[of "''~/x''" example_os "Some ''/base''"] home
  have b: "fst (util_build_path example_os ''~/x'' (Some ''/base'')) = ''/home/u/x''" by simp
  from util_build_path_dispatch[of "''~x''" example_os "Some ''/base''"] home
  have c: "fst (util_build_path example_os ''~x'' (Some ''/base'')) = ''/home/u/x''" by simp
  from util_build_path_dispatch[of "''c.txt''" example_os _ "''/base''"] cwd
  have d: "fst (util_build_path example_os ''c.txt'' (Some ''/base'')) = ''/base/c.txt''"
    and e: "fst (util_build_path example_os ''c.txt'' None) = ''/cwd/c.txt''" by simp_all
  from a b c d e show ?thesis by simp
qed

text \<open>
  util_get_home_dir takes the value of \<^verbatim>\<open>HOME\<close> when the variable is set and asks
  \<^verbatim>\<open>g_get_home_dir\<close> only when it is not.
\<close>

lemma util_get_home_dir_prefers_HOME:
  "util_get_home_dir st = (case g_getenv_HOME st of Some dir \<Rightarrow> dir | None \<Rightarrow> g_get_home_dir st)"
  by (simp add: util_get_home_dir_def split: option.splits)

text \<open>The path that util_build_path returns does not depend on \<^verbatim>\<open>HOME\<close> at all.\<close>

lemma util_build_path_independent_of_HOME:
  "fst (util_build_path (st\<lparr>env_HOME := h\<rparr>) path dir) = fst (util_build_path st path dir)"
  by (simp add: fst_util_build_path full_path_def g_get_home_dir_def g_get_current_dir_def
      split: option.splits)

text \<open>
  Claim C3. The claim wants the home directory that util_build_path puts in place of a
  leading \<^verbatim>\<open>~\<close> to be the value of \<^verbatim>\<open>HOME\<close> when \<^verbatim>\<open>HOME\<close> is set.
  util_build_path calls \<^verbatim>\<open>g_get_home_dir\<close> itself and not util_get_home_dir: in the
  example system, where \<^verbatim>\<open>HOME\<close> is \<^verbatim>\<open>/tmp/h\<close> and the home directory of the user
  database is \<^verbatim>\<open>/home/u\<close>, util_get_home_dir answers \<^verbatim>\<open>/tmp/h\<close>, and the path
  \<^verbatim>\<open>~/x\<close> resolves to \<^verbatim>\<open>/home/u/x\<close>.
\<close>

theorem util_build_path_tilde_bypasses_HOME:
  "g_getenv_HOME example_os = Some ''/tmp/h'' \<and>
   util_get_home_dir example_os = ''/tmp/h'' \<and>
   fst (util_build_path example_os ''~/x'' None) = ''/home/u/x''"
  by (simp add: fst_util_build_path full_path_def char_at_def util_get_home_dir_def
      g_getenv_HOME_def g_get_home_dir_def example_os_def)

text \<open>Directories, once there, stay, and so does what a path resolves to.\<close>

lemma only_adds_directories_refl: "only_adds_directories st st"
  by (simp add: only_adds_directories_def)

lemma only_adds_directories_trans:
  assumes "only_adds_directories st st1" and "only_adds_directories st1 st2"
  shows "only_adds_directories st st2"
  unfolding only_adds_directories_def
proof (intro conjI allI)
  show "current_dir st2 = current_dir st" "umask st2 = umask st"
    using assms by (simp_all add: only_adds_directories_def)
  fix q
  from assms(1) have a: "nodes st1 q = nodes st q \<or>
      (nodes st q = None \<and> (\<exists>m. nodes st1 q = Some (Directory m)))"
    by (simp add: only_adds_directories_def)
  from assms(2) have b: "nodes st2 q = nodes st1 q \<or>
      (nodes st1 q = None \<and> (\<exists>m. nodes st2 q = Some (Directory m)))"
    by (simp add: only_adds_directories_def)
  from a b show "nodes st2 q = nodes st q \<or>
      (nodes st q = None \<and> (\<exists>m. nodes st2 q = Some (Directory m)))"
    by auto
qed

lemma is_dir_key_persists:
  assumes "only_adds_directories st st'" and "is_dir_key st k"
  shows "is_dir_key st' k"
proof -
  from assms(1) have "nodes st' (key_of k) = nodes st (key_of k) \<or>
      (nodes st (key_of k) = None \<and> (\<exists>m. nodes st' (key_of k) = Some (Directory m)))"
    by (simp add: only_adds_directories_def)
  with assms(2) show ?thesis
    by (auto simp: is_dir_key_def split: option.splits node.splits)
qed

lemma walk_path_persists:
  assumes "only_adds_directories st st'"
  shows "walk_path st cur cs = Some k \<Longrightarrow> walk_path st' cur cs = Some k"
proof (induction cs arbitrary: cur)
  case Nil
  then show ?case by simp
next
  case (Cons c cs)
  from Cons.prems have d: "is_dir_key st cur" by (auto split: if_splits)
  then have d': "is_dir_key st' cur" by (rule is_dir_key_persists[OF assms])
  from Cons.prems d Cons.IH d' show ?case by (auto split: if_splits)
qed

lemma resolve_persists:
  assumes "only_adds_directories st st'" and "resolve st p = Some k"
  shows "resolve st' p = Some k"
proof -
  from assms(1) have cwd: "cwd_components st' = cwd_components st"
    by (simp add: only_adds_directories_def cwd_components_def)
  from assms(2) have ne: "p \<noteq> []" by (auto simp: resolve_def)
  with assms(2) obtain comps where
    w: "walk_path st (if hd p = CHR ''/'' then [] else cwd_components st) (path_components [] p) = Some comps"
    and k: "k = key_of comps"
    by (auto simp: resolve_def)
  have "resolve st' p = map_option key_of
      (walk_path st' (if hd p = CHR ''/'' then [] else cwd_components st) (path_components [] p))"
    using ne by (simp add: resolve_def cwd)
  also have "\<dots> = Some (key_of comps)"
    by (simp only: walk_path_persists[OF assms(1) w] option.map)
  finally show ?thesis by (simp add: k)
qed

lemma g_file_test_is_dir_persists:
  assumes "only_adds_directories st st'" and "g_file_test_is_dir st p"
  shows "g_file_test_is_dir st' p"
proof -
  from assms(2) obtain k m where r: "resolve st p = Some k" and n: "nodes st k = Some (Directory m)"
    by (auto simp: g_file_test_is_dir_def node_at_def split: option.splits node.splits)
  from assms(1) have "nodes st' k = nodes st k \<or>
      (nodes st k = None \<and> (\<exists>m. nodes st' k = Some (Directory m)))"
    by (simp add: only_adds_directories_def)
  with n have "nodes st' k = Some (Directory m)" by auto
  with resolve_persists[OF assms(1) r] show ?thesis
    by (simp add: g_file_test_is_dir_def node_at_def)
qed

text \<open>What one \<^verbatim>\<open>mkdir\<close> does.\<close>

lemma sys_mkdir_changes:
  "nodes (snd (sys_mkdir st p m)) q = nodes st q \<or>
   (nodes st q = None \<and>
    nodes (snd (sys_mkdir st p m)) q = Some (Directory (m AND NOT (umask st))))"
  by (auto simp: sys_mkdir_def split: option.splits)

lemma sys_mkdir_frame:
  "current_dir (snd (sys_mkdir st p m)) = current_dir st \<and>
   umask (snd (sys_mkdir st p m)) = umask st"
  by (auto simp: sys_mkdir_def split: option.splits)

lemma sys_mkdir_only_adds: "only_adds_directories st (snd (sys_mkdir st p m))"
  unfolding only_adds_directories_def
  using sys_mkdir_changes[of st p m] sys_mkdir_frame[of st p m] by metis

lemma sys_mkdir_success:
  assumes "fst (sys_mkdir st p m) = 0"
  shows "g_file_test_is_dir (snd (sys_mkdir st p m)) p"
proof -
  from assms obtain k where r: "resolve st p = Some k" and "nodes st k = None"
    and "mkdir_permitted st k"
    by (auto simp: sys_mkdir_def split: option.splits if_splits)
  then have n: "nodes (snd (sys_mkdir st p m)) k = Some (Directory (m AND NOT (umask st)))"
    by (simp add: sys_mkdir_def)
  from resolve_persists[OF sys_mkdir_only_adds r] n show ?thesis
    by (simp add: g_file_test_is_dir_def node_at_def)
qed

text \<open>What the walk of \<^verbatim>\<open>g_mkdir_with_parents\<close> does.\<close>

lemma mkdir_walk_frame:
  "current_dir (snd (mkdir_walk st ps m)) = current_dir st \<and>
   umask (snd (mkdir_walk st ps m)) = umask st"
proof (induction ps arbitrary: st)
  case Nil
  then show ?case by simp
next
  case (Cons fn fns)
  show ?case
    using Cons[of st] Cons[of "snd (sys_mkdir st fn m)"] sys_mkdir_frame[of st fn m]
    by (auto split: prod.splits)
qed

lemma mkdir_walk_changes:
  "nodes (snd (mkdir_walk st ps m)) q = nodes st q \<or>
   (nodes st q = None \<and>
    nodes (snd (mkdir_walk st ps m)) q = Some (Directory (m AND NOT (umask st))))"
proof (induction ps arbitrary: st)
  case Nil
  then show ?case by simp
next
  case (Cons fn fns)
  let ?st1 = "snd (sys_mkdir st fn m)"
  have u: "umask ?st1 = umask st" using sys_mkdir_frame[of st fn m] by simp
  show ?case
    using Cons[of st] Cons[of ?st1] sys_mkdir_changes[of st fn m q] u
    by (auto split: prod.splits)
qed

lemma mkdir_walk_only_adds: "only_adds_directories st (snd (mkdir_walk st ps m))"
  unfolding only_adds_directories_def
  using mkdir_walk_changes[of st ps m] mkdir_walk_frame[of st ps m] by metis

lemma mkdir_walk_success:
  "fst (mkdir_walk st ps m) = 0 \<Longrightarrow> q \<in> set ps \<Longrightarrow> g_file_test_is_dir (snd (mkdir_walk st ps m)) q"
proof (induction ps arbitrary: st)
  case Nil
  then show ?case by simp
next
  case (Cons fn fns)
  show ?case
  proof (cases "g_file_test_exists st fn")
    case False
    let ?st1 = "snd (sys_mkdir st fn m)"
    show ?thesis
    proof (cases "fst (sys_mkdir st fn m) = - 1")
      case True
      with False Cons.prems(1) show ?thesis by (cases "sys_mkdir st fn m") auto
    next
      case ok: False
      have step: "mkdir_walk st (fn # fns) m = mkdir_walk ?st1 fns m"
        using False ok by (cases "sys_mkdir st fn m") auto
      have walked: "fst (mkdir_walk ?st1 fns m) = 0" using Cons.prems(1) step by simp
      show ?thesis
      proof (cases "q = fn")
        case True
        have "fst (sys_mkdir st fn m) = 0"
          using ok by (auto simp: sys_mkdir_def split: option.splits if_splits)
        then have "g_file_test_is_dir ?st1 fn" by (rule sys_mkdir_success)
        from g_file_test_is_dir_persists[OF mkdir_walk_only_adds this] True step
        show ?thesis by simp
      next
        case False
        with Cons.prems(2) have "q \<in> set fns" by simp
        from Cons.IH[OF walked this] step show ?thesis by simp
      qed
    qed
  next
    case True
    show ?thesis
    proof (cases "g_file_test_is_dir st fn")
      case False
      with True Cons.prems(1) show ?thesis by simp
    next
      case dir: True
      have step: "mkdir_walk st (fn # fns) m = mkdir_walk st fns m"
        using True dir by simp
      have walked: "fst (mkdir_walk st fns m) = 0" using Cons.prems(1) step by simp
      show ?thesis
      proof (cases "q = fn")
        case True
        from g_file_test_is_dir_persists[OF mkdir_walk_only_adds dir] True step
        show ?thesis by simp
      next
        case False
        with Cons.prems(2) have "q \<in> set fns" by simp
        from Cons.IH[OF walked this] step show ?thesis by simp
      qed
    qed
  qed
qed

lemma dir_prefixes_last: "dir_prefixes seen cs \<noteq> [] \<and> last (dir_prefixes seen cs) = seen @ cs"
  by (induction cs arbitrary: seen) auto

lemma whole_path_in_dir_prefixes: "p \<in> set (dir_prefixes [] p)"
  using dir_prefixes_last[of "[]" p] last_in_set[of "dir_prefixes [] p"] by auto

lemma parent_portion_full_path: "parent_portion (full_path st path dir) \<noteq> None"
  using strrchr_finds[OF full_path_has_slash[of st path dir]]
  by (auto simp: parent_portion_def split: option.splits)

lemma snd_util_build_path:
  assumes "parent_portion (full_path st path dir) = Some parent"
  shows "snd (util_build_path st path dir) = snd (g_mkdir_with_parents st parent mode_0700)"
  using assms by (auto simp: util_build_path_def parent_portion_def Let_def split: option.splits)

text \<open>
  Claim C6, as stated, fails: util_build_path does not look at the result of
  \<^verbatim>\<open>g_mkdir_with_parents\<close>. In the example system \<^verbatim>\<open>/etc/passwd\<close> is a regular
  file, so no directory can be made below it; util_build_path returns the path
  \<^verbatim>\<open>/etc/passwd/x/y\<close> all the same, and its parent-directory portion
  \<^verbatim>\<open>/etc/passwd/x\<close> does not exist afterwards.
\<close>

theorem util_build_path_parent_missing_counterexample:
  "fst (util_build_path example_os ''/etc/passwd/x/y'' None) = ''/etc/passwd/x/y'' \<and>
   parent_portion ''/etc/passwd/x/y'' = Some ''/etc/passwd/x'' \<and>
   \<not> g_file_test_exists (snd (util_build_path example_os ''/etc/passwd/x/y'' None)) ''/etc/passwd/x'' \<and>
   \<not> g_file_test_is_dir (snd (util_build_path example_os ''/etc/passwd/x/y'' None)) ''/etc/passwd/x''"
  by code_simp

text \<open>
  Claim C6, amended. util_build_path always returns a string, and that string has a
  parent-directory portion (it contains a \<^verbatim>\<open>/\<close>). Its only effect on the system is one
  call of \<^verbatim>\<open>g_mkdir_with_parents\<close> on that portion with mode 0700, whose result it
  does not look at. When that call succeeds, the parent-directory portion and every
  ancestor on the way to it are directories afterwards. Whether or not it succeeds, a
  node that differs from before is a directory that did not exist, and its permission
  bits are those of 0700 that the umask of the process leaves.
\<close>

theorem util_build_path_parent_when_mkdir_succeeds:
  "parent_portion (fst (util_build_path st path dir)) \<noteq> None \<and>
   (parent_portion (fst (util_build_path st path dir)) = Some parent \<longrightarrow>
      snd (util_build_path st path dir) = snd (g_mkdir_with_parents st parent mode_0700) \<and>
      (fst (g_mkdir_with_parents st parent mode_0700) = 0 \<longrightarrow>
         g_file_test_is_dir (snd (util_build_path st path dir)) parent \<and>
         (\<forall>q \<in> set (dir_prefixes [] parent).
            g_file_test_is_dir (snd (util_build_path st path dir)) q)) \<and>
      (\<forall>q. nodes (snd (util_build_path st path dir)) q = nodes st q \<or>
           (nodes st q = None \<and>
            nodes (snd (util_build_path st path dir)) q
              = Some (Directory (mode_0700 AND NOT (umask st))))))"
proof (intro conjI impI)
  show "parent_portion (fst (util_build_path st path dir)) \<noteq> None"
    by (simp add: fst_util_build_path parent_portion_full_path)
next
  assume p: "parent_portion (fst (util_build_path st path dir)) = Some parent"
  then have p': "parent_portion (full_path st path dir) = Some parent"
    by (simp add: fst_util_build_path)
  show s: "snd (util_build_path st path dir) = snd (g_mkdir_with_parents st parent mode_0700)"
    by (rule snd_util_build_path[OF p'])
  show "\<forall>q. nodes (snd (util_build_path st path dir)) q = nodes st q \<or>
           (nodes st q = None \<and>
            nodes (snd (util_build_path st path dir)) q
              = Some (Directory (mode_0700 AND NOT (umask st))))"
    unfolding s using mkdir_walk_changes[of st "dir_prefixes [] parent" mode_0700]
    by (simp add: g_mkdir_with_parents_def)
  assume ok: "fst (g_mkdir_with_parents st parent mode_0700) = 0"
  then have ne: "parent \<noteq> []" by (auto simp: g_mkdir_with_parents_def)
  with ok have w: "fst (mkdir_walk st (dir_prefixes [] parent) mode_0700) = 0"
    by (simp add: g_mkdir_with_parents_def)
  have all: "g_file_test_is_dir (snd (util_build_path st path dir)) q"
    if "q \<in> set (dir_prefixes [] parent)" for q
    unfolding s using mkdir_walk_success[OF w that] ne by (simp add: g_mkdir_with_parents_def)
  show "g_file_test_is_dir (snd (util_build_path st path dir)) parent"
    by (rule all[OF whole_path_in_dir_prefixes])
  show "\<forall>q \<in> set (dir_prefixes [] parent).
            g_file_test_is_dir (snd (util_build_path st path dir)) q"
    using all by blast
qed

text \<open>
  In the example system with the umask 0277, the path \<^verbatim>\<open>s/../t/c.txt\<close> below
  \<^verbatim>\<open>/base\<close>: the directories \<^verbatim>\<open>/base/s\<close> and \<^verbatim>\<open>/base/t\<close> are made, with the
  permission bits 0500.
\<close>

theorem util_build_path_parent_when_mkdir_succeeds_witness:
  "parent_portion (fst (util_build_path masked_os ''s/../t/c.txt'' (Some ''/base'')))
     = Some ''/base/s/../t'' \<and>
   fst (g_mkdir_with_parents masked_os ''/base/s/../t'' mode_0700) = 0 \<and>
   g_file_test_is_dir (snd (util_build_path masked_os ''s/../t/c.txt'' (Some ''/base'')))
     ''/base/s/../t'' \<and>
   nodes masked_os ''/base/t'' = None \<and>
   nodes (snd (util_build_path masked_os ''s/../t/c.txt'' (Some ''/base''))) ''/base/t''
     = Some (Directory 320) \<and>
   nodes (snd (util_build_path masked_os ''s/../t/c.txt'' (Some ''/base''))) ''/base/s''
     = Some (Directory 320)"
proof -
  let ?st' = "snd (util_build_path masked_os ''s/../t/c.txt'' (Some ''/base''))"
  have p: "parent_portion (fst (util_build_path masked_os ''s/../t/c.txt'' (Some ''/base'')))
     = Some ''/base/s/../t''"
    by (simp add: fst_util_build_path full_path_def char_at_def parent_portion_def)
  have ok: "fst (g_mkdir_with_parents masked_os ''/base/s/../t'' mode_0700) = 0"
    by code_simp
  have before: "nodes masked_os ''/base/t'' = None" "nodes masked_os ''/base/s'' = None"
    by (simp_all add: masked_os_def example_os_def)
  have after: "nodes ?st' ''/base/t'' \<noteq> None" "nodes ?st' ''/base/s'' \<noteq> None"
    by code_simp+
  have mode: "mode_0700 AND NOT (umask masked_os) = 320"
    by (simp add: mode_0700_def masked_os_def)
  note t = util_build_path_parent_when_mkdir_succeeds[of masked_os "''s/../t/c.txt''"
      "Some ''/base''" "''/base/s/../t''"]
  from t p ok have d: "g_file_test_is_dir ?st' ''/base/s/../t''"
    by blast
  from t p have ch: "\<forall>q. nodes ?st' q = nodes masked_os q \<or>
      (nodes masked_os q = None \<and>
       nodes ?st' q = Some (Directory (mode_0700 AND NOT (umask masked_os))))"
    by blast
  from ch[THEN spec, of "''/base/t''"] before(1) after(1)
  have m1: "nodes ?st' ''/base/t'' = Some (Directory 320)"
    unfolding mode by auto
  from ch[THEN spec, of "''/base/s''"] before(2) after(2)
  have m2: "nodes ?st' ''/base/s'' = Some (Directory 320)"
    unfolding mode by auto
  show ?thesis
    by (intro conjI p ok d before(1) m1 m2)
qed

section \<open>Properties of util_create_tmp_file\<close>

text \<open>
  Claim C8. When the temporary file cannot be created, util_create_tmp_file returns false
  and the file system is as before. When fewer bytes are written than the content has,
  it returns false and no file is left under the name that was created. When all bytes
  are written, it returns true, the out-parameter holds the name, and the file holds the
  content. Whenever it returns false, the out-parameter holds a freed pointer, not a path.
\<close>

theorem util_create_tmp_file_failure_leaves_no_file:
  "(open_tmp st = None \<longrightarrow>
      fst (util_create_tmp_file st content file_in) = False \<and>
      nodes (snd (snd (util_create_tmp_file st content file_in))) = nodes st) \<and>
   (open_tmp st = Some name \<and> write_limit st < int (length content) \<longrightarrow>
      fst (util_create_tmp_file st content file_in) = False \<and>
      nodes (snd (snd (util_create_tmp_file st content file_in))) name = None) \<and>
   (open_tmp st = Some name \<and> \<not> write_limit st < int (length content) \<longrightarrow>
      fst (util_create_tmp_file st content file_in) = True \<and>
      fst (snd (util_create_tmp_file st content file_in)) = Path name \<and>
      nodes (snd (snd (util_create_tmp_file st content file_in))) name
        = Some (Regular (Readable content))) \<and>
   (fst (util_create_tmp_file st content file_in) = False \<longrightarrow>
      fst (snd (util_create_tmp_file st content file_in)) = Freed)"
  by (auto simp: util_create_tmp_file_def g_file_open_tmp_def sys_write_def unlink_def
      fprintf_stderr_def Let_def split: option.splits)

theorem util_create_tmp_file_failure_leaves_no_file_witness:
  "open_tmp example_os = Some ''/tmp/vimb-Ab12Cd'' \<and>
   write_limit example_os < int (length ''hello'') \<and>
   fst (util_create_tmp_file example_os ''hello'' None) = False \<and>
   nodes (snd (snd (util_create_tmp_file example_os ''hello'' None))) ''/tmp/vimb-Ab12Cd'' = None \<and>
   fst (snd (util_create_tmp_file example_os ''hello'' None)) = Freed \<and>
   \<not> write_limit example_os < int (length ''hel'') \<and>
   fst (util_create_tmp_file example_os ''hel'' None) = True \<and>
   fst (snd (util_create_tmp_file example_os ''hel'' None)) = Path ''/tmp/vimb-Ab12Cd'' \<and>
   nodes (snd (snd (util_create_tmp_file example_os ''hel'' None))) ''/tmp/vimb-Ab12Cd''
     = Some (Regular (Readable ''hel'')) \<and>
   open_tmp (example_os\<lparr>open_tmp := None\<rparr>) = None \<and>
   fst (util_create_tmp_file (example_os\<lparr>open_tmp := None\<rparr>) ''hello'' None) = False \<and>
   fst (snd (util_create_tmp_file (example_os\<lparr>open_tmp := None\<rparr>) ''hello'' None)) = Freed \<and>
   nodes (snd (snd (util_create_tmp_file (example_os\<lparr>open_tmp := None\<rparr>) ''hello'' None)))
     = nodes (example_os\<lparr>open_tmp := None\<rparr>)"
proof -
  have a: "open_tmp example_os = Some ''/tmp/vimb-Ab12Cd''" by (simp add: example_os_def)
  have b: "write_limit example_os < int (length ''hello'')" by (simp add: example_os_def)
  have b': "\<not> write_limit example_os < int (length ''hel'')" by (simp add: example_os_def)
  have a': "open_tmp (example_os\<lparr>open_tmp := None\<rparr>) = None" by simp
  note t = util_create_tmp_file_failure_leaves_no_file[where st = example_os
      and name = "''/tmp/vimb-Ab12Cd''" and content = "''hello''" and file_in = None]
  note u = util_create_tmp_file_failure_leaves_no_file[where st = example_os
      and name = "''/tmp/vimb-Ab12Cd''" and content = "''hel''" and file_in = None]
  note w = util_create_tmp_file_failure_leaves_no_file[where st = "example_os\<lparr>open_tmp := None\<rparr>"
      and content = "''hello''" and file_in = None]
  from t a b have c: "fst (util_create_tmp_file example_os ''hello'' None) = False"
    and d: "nodes (snd (snd (util_create_tmp_file example_os ''hello'' None))) ''/tmp/vimb-Ab12Cd'' = None"
    by blast+
  from t c have e: "fst (snd (util_create_tmp_file example_os ''hello'' None)) = Freed" by blast
  from u a b' have s1: "fst (util_create_tmp_file example_os ''hel'' None) = True"
    and s2: "fst (snd (util_create_tmp_file example_os ''hel'' None)) = Path ''/tmp/vimb-Ab12Cd''"
    and s3: "nodes (snd (snd (util_create_tmp_file example_os ''hel'' None))) ''/tmp/vimb-Ab12Cd''
     = Some (Regular (Readable ''hel''))"
    by blast+
  from w a' have f1: "fst (util_create_tmp_file (example_os\<lparr>open_tmp := None\<rparr>) ''hello'' None) = False"
    and f3: "nodes (snd (snd (util_create_tmp_file (example_os\<lparr>open_tmp := None\<rparr>) ''hello'' None)))
     = nodes (example_os\<lparr>open_tmp := None\<rparr>)"
    by blast+
  from w f1 have f2: "fst (snd (util_create_tmp_file (example_os\<lparr>open_tmp := None\<rparr>) ''hello'' None)) = Freed"
    by blast
  show ?thesis
    by (intro conjI a b c d e b' s1 s2 s3 a' f1 f2 f3)
qed

section \<open>Properties of util_file_to_unique_list\<close>

lemma util_file_to_unique_list_no_content:
  assumes "util_get_file_contents st filename = (None, st')"
  shows "util_file_to_unique_list st filename func unique_func = ([], st')"
  using assms
  by (simp add: util_file_to_unique_list_def util_get_lines_def g_strv_length_def int_of_guint_def)

text \<open>
  Claim C5. For a file name that names no regular file, and for a regular file that cannot
  be read, util_file_to_unique_list returns the empty list, and the state afterwards is
  the state before with one line added to the standard error stream by
  util_get_file_contents: \<^verbatim>\<open>Cannot open\<close>, the file name, a colon and the reason
  (\<^verbatim>\<open>file not found\<close>, or the message of the read error).
\<close>

theorem util_file_to_unique_list_unreadable_file:
  "(\<not> g_file_test_is_regular st filename \<longrightarrow>
      util_get_file_contents st filename =
        (None, st\<lparr>stderr := stderr st @ ''Cannot open '' @ filename @ '': file not found'' @ [CHR 0x0A]\<rparr>) \<and>
      util_file_to_unique_list st filename func unique_func =
        ([], st\<lparr>stderr := stderr st @ ''Cannot open '' @ filename @ '': file not found'' @ [CHR 0x0A]\<rparr>)) \<and>
   (g_file_test_is_regular st filename \<and> g_file_get_contents st filename = Inl message \<longrightarrow>
      util_get_file_contents st filename =
        (None, st\<lparr>stderr := stderr st @ ''Cannot open '' @ filename @ '': '' @ message @ [CHR 0x0A]\<rparr>) \<and>
      util_file_to_unique_list st filename func unique_func =
        ([], st\<lparr>stderr := stderr st @ ''Cannot open '' @ filename @ '': '' @ message @ [CHR 0x0A]\<rparr>))"
proof (intro conjI impI)
  assume a: "\<not> g_file_test_is_regular st filename"
  then show c: "util_get_file_contents st filename =
        (None, st\<lparr>stderr := stderr st @ ''Cannot open '' @ filename @ '': file not found'' @ [CHR 0x0A]\<rparr>)"
    by (simp add: util_get_file_contents_def fprintf_stderr_def)
  show "util_file_to_unique_list st filename func unique_func =
        ([], st\<lparr>stderr := stderr st @ ''Cannot open '' @ filename @ '': file not found'' @ [CHR 0x0A]\<rparr>)"
    by (rule util_file_to_unique_list_no_content[OF c])
next
  assume a: "g_file_test_is_regular st filename \<and> g_file_get_contents st filename = Inl message"
  then show c: "util_get_file_contents st filename =
        (None, st\<lparr>stderr := stderr st @ ''Cannot open '' @ filename @ '': '' @ message @ [CHR 0x0A]\<rparr>)"
    by (simp add: util_get_file_contents_def fprintf_stderr_def)
  show "util_file_to_unique_list st filename func unique_func =
        ([], st\<lparr>stderr := stderr st @ ''Cannot open '' @ filename @ '': '' @ message @ [CHR 0x0A]\<rparr>)"
    by (rule util_file_to_unique_list_no_content[OF c])
qed

theorem util_file_to_unique_list_unreadable_file_witness:
  "\<not> g_file_test_is_regular example_os ''/nonexistent/path'' \<and>
   fst (util_file_to_unique_list example_os ''/nonexistent/path'' Some compare_strings) = [] \<and>
   stderr (snd (util_file_to_unique_list example_os ''/nonexistent/path'' Some compare_strings))
     = ''Cannot open /nonexistent/path: file not found'' @ [CHR 0x0A] \<and>
   g_file_test_is_regular example_os ''/etc/shadow'' \<and>
   g_file_get_contents example_os ''/etc/shadow'' = Inl ''Permission denied'' \<and>
   fst (util_file_to_unique_list example_os ''/etc/shadow'' Some compare_strings) = [] \<and>
   stderr (snd (util_file_to_unique_list example_os ''/etc/shadow'' Some compare_strings))
     = ''Cannot open /etc/shadow: Permission denied'' @ [CHR 0x0A]"
proof -
  have a: "\<not> g_file_test_is_regular example_os ''/nonexistent/path''"
    by code_simp
  have b: "g_file_test_is_regular example_os ''/etc/shadow'' \<and>
           g_file_get_contents example_os ''/etc/shadow'' = Inl ''Permission denied''"
    by code_simp
  have e: "stderr example_os = []" by (simp add: example_os_def)
  note t1 = util_file_to_unique_list_unreadable_file[where st = example_os
      and filename = "''/nonexistent/path''" and func = Some and unique_func = compare_strings]
  note t2 = util_file_to_unique_list_unreadable_file[where st = example_os
      and filename = "''/etc/shadow''" and func = Some and unique_func = compare_strings
      and message = "''Permission denied''"]
  from t1 a have r1: "util_file_to_unique_list example_os ''/nonexistent/path'' Some compare_strings =
        ([], example_os\<lparr>stderr := stderr example_os @ ''Cannot open '' @ ''/nonexistent/path'' @ '': file not found'' @ [CHR 0x0A]\<rparr>)"
    by blast
  from t2 b have r2: "util_file_to_unique_list example_os ''/etc/shadow'' Some compare_strings =
        ([], example_os\<lparr>stderr := stderr example_os @ ''Cannot open '' @ ''/etc/shadow'' @ '': '' @ ''Permission denied'' @ [CHR 0x0A]\<rparr>)"
    by blast
  show ?thesis
    unfolding r1 r2 using a b e by simp
qed

subsection \<open>Splitting on newlines\<close>








subsection \<open>Trimming\<close>

lemma g_ascii_isspace_spec: "g_ascii_isspace c = spec_is_space c"
proof -
  have code: "(of_char c :: nat) = of_char d \<longleftrightarrow> c = d" for d :: char
    by (rule of_char_eq_iff)
  have "spec_is_space c \<longleftrightarrow>
     (of_char c :: nat) = of_char (CHR '' '') \<or> (of_char c :: nat) = of_char (CHR 0x09) \<or>
     (of_char c :: nat) = of_char (CHR 0x0A) \<or> (of_char c :: nat) = of_char (CHR 0x0C) \<or>
     (of_char c :: nat) = of_char (CHR 0x0D)"
    unfolding code by (simp add: spec_is_space_def)
  then show ?thesis by (auto simp: g_ascii_isspace_def Let_def)
qed

lemma g_strchug_spec: "g_strchug s = spec_trim_leading s"
  by (induction s) (simp_all add: g_strchug_def g_ascii_isspace_spec)

lemma g_strchomp_spec: "g_strchomp s = spec_trim_trailing s"
proof (induction s)
  case Nil
  then show ?case by (simp add: g_strchomp_def)
next
  case (Cons c cs)
  have ih: "rev (dropWhile g_ascii_isspace (rev cs)) = spec_trim_trailing cs"
    using Cons by (simp add: g_strchomp_def)
  show ?case
  proof (cases "\<forall>x \<in> set cs. g_ascii_isspace x")
    case True
    then have "dropWhile g_ascii_isspace (rev cs) = []" by simp
    with ih have "spec_trim_trailing cs = []" by simp
    moreover have "dropWhile g_ascii_isspace (rev cs @ [c]) = dropWhile g_ascii_isspace [c]"
      using True by (simp add: dropWhile_append)
    ultimately show ?thesis by (simp add: g_strchomp_def g_ascii_isspace_spec)
  next
    case False
    then have ne: "dropWhile g_ascii_isspace (rev cs) \<noteq> []" by (simp add: dropWhile_eq_Nil_conv)
    with ih have "spec_trim_trailing cs \<noteq> []" by auto
    moreover have "dropWhile g_ascii_isspace (rev cs @ [c])
        = dropWhile g_ascii_isspace (rev cs) @ [c]"
      using False by (auto simp: dropWhile_append)
    ultimately show ?thesis using ih by (simp add: g_strchomp_def)
  qed
qed

lemma g_strstrip_spec_trim: "g_strstrip s = spec_trim s"
  by (simp add: g_strstrip_def spec_trim_def g_strchug_spec g_strchomp_spec)

subsection \<open>Removing from the reversed list\<close>

lemma spec_remove_snoc:
  "spec_remove equals v (xs @ [e]) = (if equals v e then xs else spec_remove equals v xs @ [e])"
  by (induction xs) (auto simp: list_ex_iff)

lemma rev_remove_equal:
  "rev (remove_equal unique_func v gl) = spec_remove (equal_under unique_func) v (rev gl)"
  by (induction gl) (auto simp: spec_remove_snoc equal_under_def)

lemma rev_unique_list_loop:
  "rev (unique_list_loop func unique_func ls gl)
     = foldl (spec_step func (equal_under unique_func)) (rev gl) ls"
proof (induction ls arbitrary: gl)
  case Nil
  then show ?case by simp
next
  case (Cons line ls)
  show ?case
  proof (cases "spec_parse_line func line")
    case None
    then have "unique_list_loop func unique_func (line # ls) gl = unique_list_loop func unique_func ls gl"
      by (auto simp: spec_parse_line_def g_strstrip_spec_trim Let_def split: if_splits)
    with None Cons show ?thesis by (simp add: spec_step_def)
  next
    case (Some v)
    then have "unique_list_loop func unique_func (line # ls) gl
        = unique_list_loop func unique_func ls (v # remove_equal unique_func v gl)"
      by (auto simp: spec_parse_line_def g_strstrip_spec_trim Let_def split: if_splits)
    with Some Cons[of "v # remove_equal unique_func v gl"] show ?thesis
      by (simp add: spec_step_def spec_insert_def rev_remove_equal)
  qed
qed

subsection \<open>The loader against the reference fold\<close>




subsection \<open>A file of more than INT_MAX lines\<close>






subsection \<open>The parse function is not asked about empty lines\<close>



subsection \<open>Lists without two equal entries\<close>

lemma no_equal_entries_Nil: "no_equal_entries equals []"
  by (simp add: no_equal_entries_def)

lemma no_equal_entries_Cons:
  "no_equal_entries equals (x # xs) \<longleftrightarrow>
     (\<forall>y \<in> set xs. \<not> equals x y \<and> \<not> equals y x) \<and> no_equal_entries equals xs"
proof
  assume a: "no_equal_entries equals (x # xs)"
  have h: "\<not> equals ((x # xs) ! i) ((x # xs) ! j)"
    if "i < Suc (length xs)" "j < Suc (length xs)" "i \<noteq> j" for i j
    using a that by (simp add: no_equal_entries_def)
  have "\<not> equals x y \<and> \<not> equals y x" if "y \<in> set xs" for y
  proof -
    from that obtain k where k: "k < length xs" "xs ! k = y" by (auto simp: in_set_conv_nth)
    from h[of 0 "Suc k"] h[of "Suc k" 0] k show ?thesis by simp
  qed
  moreover have "no_equal_entries equals xs"
    unfolding no_equal_entries_def
  proof (intro allI impI)
    fix i j assume "i < length xs" "j < length xs" "i \<noteq> j"
    with h[of "Suc i" "Suc j"] show "\<not> equals (xs ! i) (xs ! j)" by simp
  qed
  ultimately show "(\<forall>y \<in> set xs. \<not> equals x y \<and> \<not> equals y x) \<and> no_equal_entries equals xs"
    by blast
next
  assume a: "(\<forall>y \<in> set xs. \<not> equals x y \<and> \<not> equals y x) \<and> no_equal_entries equals xs"
  show "no_equal_entries equals (x # xs)"
    unfolding no_equal_entries_def
  proof (intro allI impI)
    fix i j assume b: "i < length (x # xs)" "j < length (x # xs)" "i \<noteq> j"
    show "\<not> equals ((x # xs) ! i) ((x # xs) ! j)"
    proof (cases i)
      case 0
      with b obtain j' where "j = Suc j'" "j' < length xs" by (cases j) auto
      with 0 a show ?thesis by simp
    next
      case (Suc i')
      show ?thesis
      proof (cases j)
        case 0
        with Suc b a show ?thesis by simp
      next
        case (Suc j')
        with \<open>i = Suc i'\<close> b a show ?thesis by (simp add: no_equal_entries_def)
      qed
    qed
  qed
qed

lemma no_equal_entries_snoc:
  "no_equal_entries equals (xs @ [v]) \<longleftrightarrow>
     no_equal_entries equals xs \<and> (\<forall>y \<in> set xs. \<not> equals y v \<and> \<not> equals v y)"
  by (induction xs) (auto simp: no_equal_entries_Cons no_equal_entries_Nil)

lemma no_equal_entries_filter:
  "no_equal_entries equals xs \<Longrightarrow> no_equal_entries equals (filter P xs)"
  by (induction xs) (auto simp: no_equal_entries_Cons no_equal_entries_Nil)

subsection \<open>Under an equivalence, removing one entry removes all equal ones\<close>

lemma equivalence_sym: "is_equivalence equals \<Longrightarrow> equals a b \<Longrightarrow> equals b a"
  unfolding is_equivalence_def by blast

lemma equivalence_trans: "is_equivalence equals \<Longrightarrow> equals a b \<Longrightarrow> equals b c \<Longrightarrow> equals a c"
  unfolding is_equivalence_def by blast

lemma spec_remove_filter:
  assumes "is_equivalence equals"
  shows "no_equal_entries equals acc \<Longrightarrow> spec_remove equals v acc = filter (\<lambda>e. \<not> equals v e) acc"
proof (induction acc)
  case Nil
  then show ?case by simp
next
  case (Cons e es)
  from Cons.prems have apart: "\<forall>y \<in> set es. \<not> equals e y" and rest: "no_equal_entries equals es"
    by (simp_all add: no_equal_entries_Cons)
  note ih = Cons.IH[OF rest]
  show ?case
  proof (cases "list_ex (equals v) es")
    case True
    then obtain y where y: "y \<in> set es" "equals v y" by (auto simp: list_ex_iff)
    have "\<not> equals v e"
    proof
      assume "equals v e"
      then have "equals e v" by (rule equivalence_sym[OF assms])
      then have "equals e y" using y(2) by (rule equivalence_trans[OF assms])
      with apart y(1) show False by blast
    qed
    then have "filter (\<lambda>e. \<not> equals v e) (e # es) = e # filter (\<lambda>e. \<not> equals v e) es"
      by simp
    moreover have "spec_remove equals v (e # es) = e # spec_remove equals v es"
      using True by simp
    ultimately show ?thesis using ih by simp
  next
    case False
    then have "filter (\<lambda>e. \<not> equals v e) es = es" by (auto simp: list_ex_iff)
    moreover have "spec_remove equals v (e # es) = (if equals v e then es else e # es)"
      using False by simp
    ultimately show ?thesis by simp
  qed
qed

lemma no_equal_entries_spec_insert:
  assumes "is_equivalence equals" and "no_equal_entries equals acc"
  shows "no_equal_entries equals (spec_insert equals acc v)"
proof -
  have sym: "\<And>a b. equals a b \<Longrightarrow> equals b a"
    by (rule equivalence_sym[OF assms(1)])
  have "\<not> equals y v \<and> \<not> equals v y" if "y \<in> set (filter (\<lambda>e. \<not> equals v e) acc)" for y
    using that sym by auto
  then show ?thesis
    unfolding spec_insert_def spec_remove_filter[OF assms] no_equal_entries_snoc
    using no_equal_entries_filter[OF assms(2)] by blast
qed

lemma no_equal_entries_foldl:
  assumes "is_equivalence equals"
  shows "no_equal_entries equals acc \<Longrightarrow> no_equal_entries equals (foldl (spec_insert equals) acc vs)"
  by (induction vs arbitrary: acc) (simp_all add: no_equal_entries_spec_insert[OF assms])

lemma foldl_spec_step_values:
  "foldl (spec_step parse equals) acc ls
     = foldl (spec_insert equals) acc (List.map_filter (spec_parse_line parse) ls)"
  by (induction ls arbitrary: acc) (auto simp: spec_step_def List.map_filter_simps split: option.splits)

subsection \<open>Last-seen order\<close>








lemma fst_util_file_to_unique_list_shape:
  "\<exists>ls. fst (util_file_to_unique_list st filename func unique_func)
          = foldl (spec_step func (equal_under unique_func)) [] ls"
proof (cases "util_get_lines st filename")
  case (Pair ls_opt st')
  show ?thesis
  proof (cases "int_of_guint (g_strv_length ls_opt) = 0 \<or> ls_opt = None")
    case True
    have "fst (util_file_to_unique_list st filename func unique_func) = []"
      using Pair True by (auto simp: util_file_to_unique_list_def Let_def)
    then have "fst (util_file_to_unique_list st filename func unique_func)
          = foldl (spec_step func (equal_under unique_func)) [] []" by simp
    then show ?thesis by blast
  next
    case False
    then obtain ls where ls: "ls_opt = Some ls" by auto
    have "fst (util_file_to_unique_list st filename func unique_func)
          = foldl (spec_step func (equal_under unique_func)) []
              (take (nat (int_of_guint (g_strv_length ls_opt))) ls)"
      using Pair False ls
      by (simp add: util_file_to_unique_list_def Let_def rev_unique_list_loop)
    then show ?thesis by blast
  qed
qed

lemma compare_strings_equivalence: "is_equivalence (equal_under compare_strings)"
  by (simp add: is_equivalence_def equal_under_def compare_strings_def)




text \<open>
  Claim C4. When the equality function is an equivalence relation, no two entries at
  different positions of the list that util_file_to_unique_list returns are equal, for
  every file, parse function and state of the system.
\<close>

theorem util_file_to_unique_list_no_equal_entries:
  assumes "is_equivalence (equal_under unique_func)"
  shows "no_equal_entries (equal_under unique_func)
           (fst (util_file_to_unique_list st filename func unique_func))"
proof -
  from fst_util_file_to_unique_list_shape obtain ls
    where "fst (util_file_to_unique_list st filename func unique_func)
          = foldl (spec_step func (equal_under unique_func)) [] ls" by blast
  then show ?thesis
    using no_equal_entries_foldl[OF assms no_equal_entries_Nil]
    by (simp add: foldl_spec_step_values)
qed

theorem util_file_to_unique_list_no_equal_entries_witness:
  "is_equivalence (equal_under compare_strings) \<and>
   no_equal_entries (equal_under compare_strings)
     (fst (util_file_to_unique_list example_os ''/base/list'' Some compare_strings))"
  by (intro conjI compare_strings_equivalence
      util_file_to_unique_list_no_equal_entries[OF compare_strings_equivalence])

end
